theory Spec2Isabelle
  imports Main
begin

section \<open>Values\<close>

text \<open>
  A failure value is a JavaScript value compared by identity (\<open>===\<close>).
  \<open>TimeoutError\<close> is the one object that index.js exports under that name
  (\<^verbatim>\<open>export const TimeoutError = new Error('Timed out')\<close>);
  \<open>Err n\<close> is any other value, \<open>n\<close> standing for its identity.
\<close>

datatype err = TimeoutError | Err nat

text \<open>A synchronous \<^verbatim>\<open>throw new Error(msg)\<close> of the package itself.\<close>

datatype thrown = Error string

text \<open>An argument that the source tests with \<^verbatim>\<open>typeof x !== 'function'\<close>.\<close>

datatype 'f jsvalue = Function 'f | NotFunction

text \<open>
  The three states of a promise; \<open>Pending\<close> is the final state of a promise that
  never settles.
\<close>

datatype 'v state = Pending | Fulfilled 'v | Rejected err

text \<open>
  What one call of a user function does: it returns a plain value, throws, or returns a
  promise that reaches state \<open>p\<close> after \<open>t\<close> milliseconds.
\<close>

datatype 'v outcome = Returns 'v | Throws err | Promise nat "'v state"

text \<open>
  A task is a zero-argument function; \<open>'w\<close> is the state of the user's program that
  the task and the observer read and change.
\<close>

type_synonym ('v, 'w) task = "'w \<Rightarrow> 'v outcome \<times> 'w"

text \<open>
  \<^verbatim>\<open>new Promise(resolve => resolve(run()))\<close> and \<^verbatim>\<open>.then(fn)\<close>: the promise adopts
  what the call returns, and a call that throws rejects it. The result is the time and
  the state of the settlement.
\<close>

fun executor :: "'v outcome \<Rightarrow> nat \<times> 'v state" where
  "executor (Returns v) = (0, Fulfilled v)"
| "executor (Throws e) = (0, Rejected e)"
| "executor (Promise t p) = (t, p)"

text \<open>\<^verbatim>\<open>x || d\<close> on numbers; an omitted argument (\<open>undefined\<close>) is modelled as \<open>0\<close>,
  which \<open>||\<close> treats the same way.\<close>

definition js_or :: "int \<Rightarrow> int \<Rightarrow> int" where
  "js_or x d = (if x = 0 then d else x)"

section \<open>The notifier (helpers.js)\<close>

text \<open>
  An observer receives its arguments \<open>'a\<close> and the user state. It gives back the
  contents it leaves in the objects it was handed (it may mutate them), the exception
  it throws, if any, and the new user state.
\<close>

type_synonym ('a, 'w) callback = "'a \<Rightarrow> 'w \<Rightarrow> 'a \<times> err option \<times> 'w"

definition noop :: "('a, 'w) callback" where
  "noop a w = (a, None, w)"

text \<open>
  \<^verbatim>\<open>
  export function createNotifier() {
    let _notify = noop
    function set(notify) {
      if (typeof notify !== 'function') {
        throw new Error('Expected `notify` to be a function.')
      }
      _notify = notify
      return this // a Promise
    }
    function notify(...args) { _notify(...args) }
    return { set, notify }
  }
  \<close>
  The state of a notifier is its slot \<open>_notify\<close>. \<open>createNotifier\<close> is the initial
  slot; \<open>set_notify\<close> is \<open>set\<close>, with the receiver \<open>this\<close> and the slot passed
  explicitly and the new slot returned; \<open>notify\<close> calls the slot.
\<close>

definition createNotifier :: "('a, 'w) callback" where
  "createNotifier = noop"

definition set_notify :: "'p \<Rightarrow> 'f jsvalue \<Rightarrow> 'f \<Rightarrow> (thrown + 'p) \<times> 'f" where
  "set_notify this arg slot =
     (case arg of
        NotFunction \<Rightarrow> (Inl (Error ''Expected `notify` to be a function.''), slot)
      | Function f \<Rightarrow> (Inr this, f))"

definition notify :: "('a, 'w) callback \<Rightarrow> ('a, 'w) callback" where
  "notify slot a w = slot a w"

section \<open>Arrays and the retry context (retry.js)\<close>

text \<open>
  The context object holds two arrays that the engine mutates in place and whose copies
  are handed to the observer. Arrays live in a store: an address is an index into the
  list of all arrays allocated so far, so a new array gets the address \<open>length h\<close>.
  An address with no array behind it reads as the empty array.
\<close>

type_synonym addr = nat
type_synonym heap = "int list list"

definition read :: "heap \<Rightarrow> addr \<Rightarrow> int list" where
  "read h a = (if a < length h then h ! a else [])"

definition alloc :: "int list \<Rightarrow> heap \<Rightarrow> addr \<times> heap" where
  "alloc xs h = (length h, h @ [xs])"

record retry_context =
  retries :: addr
  intervals :: addr

text \<open>\<^verbatim>\<open>xs.shift()\<close>: removes and returns the first element; \<open>undefined\<close> on
  an empty array.\<close>

definition shift :: "addr \<Rightarrow> heap \<Rightarrow> int option \<times> heap" where
  "shift a h = (case read h a of [] \<Rightarrow> (None, h) | x # xs \<Rightarrow> (Some x, h[a := xs]))"

text \<open>
  \<^verbatim>\<open>
  function cloneContext(ctx) {
    return { retries: ctx.retries.slice(0), intervals: ctx.intervals.slice(0) }
  }
  \<close>
\<close>

definition cloneContext :: "retry_context \<Rightarrow> heap \<Rightarrow> retry_context \<times> heap" where
  "cloneContext c h =
     (let (a, h1) = alloc (read h (retries c)) h;
          (b, h2) = alloc (read h1 (intervals c)) h1
      in (\<lparr>retries = a, intervals = b\<rparr>, h2))"

section \<open>Interval schedules (retry.js)\<close>

text \<open>
  JavaScript numbers that count retries and milliseconds are modelled as mathematical
  integers (\<open>int\<close>): the values the package works with are small whole numbers, on
  which the double-precision arithmetic of the source is exact.

  \<^verbatim>\<open>
  function createConstantIntervals(retries, interval) {
    const res = []
    for (let i = 0; i < retries; i++) {
      res.push(interval)
    }
    return res
  }
  \<close>
  The \<open>for\<close> loop is a tail-recursive function of the loop variable \<open>i\<close> and the
  array \<open>res\<close> built so far.
\<close>

function createConstantIntervals_loop :: "int \<Rightarrow> int \<Rightarrow> int \<Rightarrow> int list \<Rightarrow> int list" where
  "createConstantIntervals_loop n interval i res =
     (if i < n then createConstantIntervals_loop n interval (i + 1) (res @ [interval])
      else res)"
  by pat_completeness auto
termination
  by (relation "measure (\<lambda>(n, interval, i, res). nat (n - i))") auto

definition createConstantIntervals :: "int \<Rightarrow> int \<Rightarrow> int list" where
  "createConstantIntervals n interval = createConstantIntervals_loop n interval 0 []"

text \<open>
  \<^verbatim>\<open>
  function createExponentialIntervals(retries, interval) {
    const res = []
    let next = interval
    for (let i = 0; i < retries; next *= 2, i++) {
      res.push(next)
    }
    return res
  }
  \<close>
\<close>

function createExponentialIntervals_loop :: "int \<Rightarrow> int \<Rightarrow> int \<Rightarrow> int list \<Rightarrow> int list" where
  "createExponentialIntervals_loop n next i res =
     (if i < n then createExponentialIntervals_loop n (next * 2) (i + 1) (res @ [next])
      else res)"
  by pat_completeness auto
termination
  by (relation "measure (\<lambda>(n, next, i, res). nat (n - i))") auto

definition createExponentialIntervals :: "int \<Rightarrow> int \<Rightarrow> int list" where
  "createExponentialIntervals n interval = createExponentialIntervals_loop n interval 0 []"

datatype backoff = CONSTANT | EXPONENTIAL

definition DEFAULT_RETRIES :: int where
  "DEFAULT_RETRIES = 1"

definition DEFAULT_INTERVAL :: int where
  "DEFAULT_INTERVAL = 1000"

text \<open>
  \<^verbatim>\<open>
  function createContext(type, retries, interval) {
    const createIntervals = type === EXPONENTIAL
      ? createExponentialIntervals : createConstantIntervals
    return {
      retries: [0, retries || 0], // done, max
      intervals: createIntervals(retries, interval)
    }
  }
  \<close>
\<close>

definition createContext :: "backoff \<Rightarrow> int \<Rightarrow> int \<Rightarrow> heap \<Rightarrow> retry_context \<times> heap" where
  "createContext ty n interval h =
     (let createIntervals = (if ty = EXPONENTIAL then createExponentialIntervals
                             else createConstantIntervals);
          (a, h1) = alloc [0, js_or n 0] h;
          (b, h2) = alloc (createIntervals n interval) h1
      in (\<lparr>retries = a, intervals = b\<rparr>, h2))"

section \<open>The retry engine (retry.js)\<close>

text \<open>
  What the engine does is recorded as a trace, in the order in which it happens: a call
  of the task together with the state its promise reaches, a \<open>delay(ms)\<close> that has
  elapsed (the event keeps the argument \<open>ms\<close>), and a call of the observer with the
  contents of the context copy and the failure it is given.
\<close>

type_synonym snapshot = "int list \<times> int list"

datatype 'v event = Attempt "'v state" | Delay "int option" | Notify snapshot err

record ('v, 'w) sys =
  heap :: heap
  world :: 'w
  trace :: "'v event list"

text \<open>
  \<^verbatim>\<open>
  function handle(fn, notify, ctx) {
    return err => {
      const [done, max] = ctx.retries
      if (done < max) {
        ctx.retries[0]++
        const ctxClone = cloneContext(ctx)
        return delay(ctx.intervals.shift())
          .then(() => notify(ctxClone, err))
          .then(fn)
          .catch(handle(fn, notify, ctx))
      }
      return Promise.reject(err)
    }
  }
  \<close>
  The chain \<open>delay \<dots> then \<dots> then \<dots> catch\<close> runs in that order: the delay elapses, the
  observer is called, the task is called, and a rejection of any of the three reaches the
  next \<open>handle\<close>. An observer that throws therefore skips the call of the task and hands
  its exception to the next \<open>handle\<close>. A comparison with \<open>undefined\<close> is false, so an
  array \<open>ctx.retries\<close> of fewer than two elements ends the retries. The observer is
  given the contents of the two arrays of the copy and what it leaves in them is written
  back to the copy's addresses.
\<close>

function handle ::
  "('v, 'w) task \<Rightarrow> (snapshot \<times> err, 'w) callback \<Rightarrow> retry_context \<Rightarrow> err \<Rightarrow>
     ('v, 'w) sys \<Rightarrow> 'v state \<times> ('v, 'w) sys" where
  "handle fn slot c e s =
     (case read (heap s) (retries c) of
        done' # max' # rest \<Rightarrow>
          if done' < max' then
            (let h1 = (heap s)[retries c := (done' + 1) # max' # rest];
                 (ctxClone, h2) = cloneContext c h1;
                 (d, h3) = shift (intervals c) h2;
                 snap = (read h3 (retries ctxClone), read h3 (intervals ctxClone));
                 ((snap', _), exc, w1) = notify slot (snap, e) (world s);
                 h4 = h3[retries ctxClone := fst snap', intervals ctxClone := snd snap'];
                 tr = trace s @ [Delay d, Notify snap e]
             in case exc of
                  Some x \<Rightarrow> handle fn slot c x \<lparr>heap = h4, world = w1, trace = tr\<rparr>
                | None \<Rightarrow>
                    (let (out, w2) = fn w1;
                         p = snd (executor out);
                         s' = \<lparr>heap = h4, world = w2, trace = tr @ [Attempt p]\<rparr>
                     in case p of
                          Rejected e' \<Rightarrow> handle fn slot c e' s'
                        | _ \<Rightarrow> (p, s')))
          else (Rejected e, s)
      | _ \<Rightarrow> (Rejected e, s))"
  by pat_completeness auto

text \<open>
  Termination. In a context whose two arrays are distinct the counter \<open>done\<close> grows
  towards \<open>max\<close>; if both fields name the same array, \<open>shift\<close> shortens it. The
  copies get fresh addresses, so what the observer writes never reaches \<open>ctx.retries\<close>.
\<close>

lemma read_Cons_valid: "read h a = x # xs \<Longrightarrow> a < length h"
  by (simp add: read_def split: if_splits)

lemma cloneContext_fresh:
  assumes "cloneContext c h = (c', h2)"
  shows "retries c' = length h" "intervals c' = Suc (length h)"
    "length h2 = length h + 2" "\<And>a. a < length h \<Longrightarrow> read h2 a = read h a"
    "read h2 (retries c') = read h (retries c)"
  using assms by (auto simp: cloneContext_def alloc_def read_def nth_append)

lemma shift_other:
  assumes "shift i h = (d, h3)"
  shows "length h3 = length h" "\<And>a. a \<noteq> i \<Longrightarrow> read h3 a = read h a"
    "read h3 i = tl (read h i)"
  using assms by (auto simp: shift_def read_def split: list.splits if_splits)

lemma retries_after_round:
  assumes r: "read h (retries c) = d # m # rest"
    and c: "cloneContext c (h[retries c := (d + 1) # m # rest]) = (c', h2)"
    and s: "shift (intervals c) h2 = (dl, h3)"
  shows "read (h3[retries c' := a, intervals c' := b]) (retries c) =
           (if intervals c = retries c then m # rest else (d + 1) # m # rest)"
proof -
  let ?r = "retries c"
  let ?h1 = "h[?r := (d + 1) # m # rest]"
  from r have v: "?r < length h" by (rule read_Cons_valid)
  then have r1: "read ?h1 ?r = (d + 1) # m # rest" by (simp add: read_def)
  from v have v1: "?r < length ?h1" by simp
  note f = cloneContext_fresh [OF c]
  from f(4) [OF v1] r1 have r2: "read h2 ?r = (d + 1) # m # rest" by simp
  note sh = shift_other [OF s]
  have r3: "read h3 ?r = (if intervals c = ?r then m # rest else (d + 1) # m # rest)"
    using sh(2) [of ?r] sh(3) r2 by auto
  have ne: "retries c' \<noteq> ?r" "intervals c' \<noteq> ?r" using f(1,2) v by simp_all
  have "read (h3[retries c' := a, intervals c' := b]) ?r = read h3 ?r"
    using ne by (simp add: read_def)
  with r3 show ?thesis by simp
qed

termination handle
proof (relation "measures [\<lambda>(fn, slot, c, e, s). length (read (heap s) (retries c)),
              \<lambda>(fn, slot, c, e, s). case read (heap s) (retries c) of
                   d # m # _ \<Rightarrow> nat (m - d) | _ \<Rightarrow> 0]", goal_cases)
  case 1
  show ?case by simp
next
  case (2 fn slot c e s d ms m rest h1 cc c' h2 sh dl h3 snap nf ng nb nh nc ni nj h4 tr
      om on ow p s' e')
  from 2 have "read (heap s) (retries c) = d # m # rest" by simp
  moreover from 2 have "cloneContext c ((heap s)[retries c := (d + 1) # m # rest]) = (c', h2)"
    by simp
  moreover from 2 have "shift (intervals c) h2 = (dl, h3)" by simp
  ultimately have "read h4 (retries c) =
      (if intervals c = retries c then m # rest else (d + 1) # m # rest)"
    unfolding \<open>h4 = _\<close> by (rule retries_after_round)
  with 2 show ?case by (auto split: list.splits)
next
  case (3 fn slot c e s d ms m rest h1 cc c' h2 sh dl h3 snap nf ng nb nh nc ni nj h4 tr x)
  from 3 have "read (heap s) (retries c) = d # m # rest" by simp
  moreover from 3 have "cloneContext c ((heap s)[retries c := (d + 1) # m # rest]) = (c', h2)"
    by simp
  moreover from 3 have "shift (intervals c) h2 = (dl, h3)" by simp
  ultimately have "read h4 (retries c) =
      (if intervals c = retries c then m # rest else (d + 1) # m # rest)"
    unfolding \<open>h4 = _\<close> by (rule retries_after_round)
  with 3 show ?case by (auto split: list.splits)
qed

declare handle.simps [simp del]

text \<open>
  \<^verbatim>\<open>
  function retry(type, run, retries, interval) {
    if (typeof run !== 'function') {
      throw new Error('Expected `run` to be a function.')
    }
    retries = retries || DEFAULT_RETRIES
    interval = interval || DEFAULT_INTERVAL
    const ctx = createContext(type, retries, interval)
    const notifier = createNotifier()
    let promise = new Promise(resolve => resolve(run()))
    promise = promise.catch(handle(run, notifier.notify, ctx))
    promise.notify = notifier.set
    return promise
  }
  \<close>
  The call of \<open>retry\<close> is synchronous and calls the task once. What it returns is the
  promise with everything its pending reaction closes over: the task, the context, the
  notifier's slot and the state that the first promise reaches.
\<close>

record ('v, 'w) retrying =
  r_run :: "('v, 'w) task"
  r_ctx :: retry_context
  r_notifier :: "(snapshot \<times> err, 'w) callback"
  r_promise :: "'v state"
  r_sys :: "('v, 'w) sys"

definition retry ::
  "backoff \<Rightarrow> ('v, 'w) task jsvalue \<Rightarrow> int \<Rightarrow> int \<Rightarrow> ('v, 'w) sys \<Rightarrow>
     thrown + ('v, 'w) retrying" where
  "retry ty f n0 interval0 s =
     (case f of
        NotFunction \<Rightarrow> Inl (Error ''Expected `run` to be a function.'')
      | Function fn \<Rightarrow>
          (let n = js_or n0 DEFAULT_RETRIES;
               interval = js_or interval0 DEFAULT_INTERVAL;
               (c, h1) = createContext ty n interval (heap s);
               (out, w1) = fn (world s);
               p = snd (executor out)
           in Inr \<lparr>r_run = fn, r_ctx = c, r_notifier = createNotifier, r_promise = p,
                    r_sys = \<lparr>heap = h1, world = w1, trace = trace s @ [Attempt p]\<rparr>\<rparr>))"

definition exponentialRetry ::
  "('v, 'w) task jsvalue \<Rightarrow> int \<Rightarrow> int \<Rightarrow> ('v, 'w) sys \<Rightarrow> thrown + ('v, 'w) retrying" where
  "exponentialRetry f n interval s = retry EXPONENTIAL f n interval s"

definition constantRetry ::
  "('v, 'w) task jsvalue \<Rightarrow> int \<Rightarrow> int \<Rightarrow> ('v, 'w) sys \<Rightarrow> thrown + ('v, 'w) retrying" where
  "constantRetry f n interval s = retry CONSTANT f n interval s"

text \<open>
  \<open>promise.notify(arg)\<close> on the promise that \<open>retry\<close> returned: \<open>set\<close> of its
  notifier, called with the promise as \<open>this\<close>.
\<close>

definition retrying_notify ::
  "'p \<Rightarrow> (snapshot \<times> err, 'w) callback jsvalue \<Rightarrow> ('v, 'w) retrying \<Rightarrow>
     (thrown + 'p) \<times> ('v, 'w) retrying" where
  "retrying_notify this arg r =
     (let (res, slot) = set_notify this arg (r_notifier r) in (res, r\<lparr>r_notifier := slot\<rparr>))"

text \<open>
  The reaction \<^verbatim>\<open>promise.catch(handle(run, notifier.notify, ctx))\<close>, which runs once
  the caller's synchronous code (and with it the registration of the observer) is over:
  the final state of the promise that \<open>retry\<close> returned.
\<close>

definition settle :: "('v, 'w) retrying \<Rightarrow> 'v state \<times> ('v, 'w) sys" where
  "settle r =
     (case r_promise r of
        Rejected e \<Rightarrow> handle (r_run r) (r_notifier r) (r_ctx r) e (r_sys r)
      | p \<Rightarrow> (p, r_sys r))"

section \<open>Timers and the deadline wrapper (index.js, deadline.js)\<close>

text \<open>
  A promise is here the time at which it settles and the state it reaches.
  \<^verbatim>\<open>
  export function delay(ms) {
    return new Promise(resolve => setTimeout(resolve, ms))
  }
  \<close>
  \<open>setTimeout\<close> keeps its delay as a signed 32-bit number of milliseconds: a delay
  below 1 or above \<open>2147483647\<close> is set to 1. The first component is the time at
  which the timer fires.
\<close>

definition delay :: "int \<Rightarrow> nat \<times> unit state" where
  "delay ms = (if ms < 1 \<or> 2147483647 < ms then 1 else nat ms, Fulfilled ())"

text \<open>
  \<open>Promise.race\<close>: the state of the promise that settles first; a promise that never
  settles never wins. Of two promises that settle at the same time the model takes the
  one that stands first in the array. The theorems of the claims do not rest on this
  choice: where they compare a task with the timer, one of the two is strictly earlier
  or both reject with the same value.
\<close>

fun race :: "(nat \<times> 'v state) list \<Rightarrow> nat \<times> 'v state" where
  "race [] = (0, Pending)"
| "race (p # ps) =
     (let q = race ps
      in if snd p = Pending then q
         else if snd q = Pending then p
         else if fst p \<le> fst q then p else q)"

text \<open>
  \<^verbatim>\<open>
  export function timeout(promise, ms) {
    const delayed = delay(ms).then(() => Promise.reject(TimeoutError))
    return Promise.race([promise, delayed])
  }
  \<close>
\<close>

definition timeout :: "nat \<times> 'v state \<Rightarrow> int \<Rightarrow> nat \<times> 'v state" where
  "timeout promise ms =
     (let delayed = (case delay ms of
                       (t, Fulfilled _) \<Rightarrow> (t, Rejected TimeoutError)
                     | (t, Rejected e) \<Rightarrow> (t, Rejected e)
                     | (t, Pending) \<Rightarrow> (t, Pending))
      in race [promise, delayed])"

text \<open>
  \<^verbatim>\<open>
  function handle(promise, ms, notify) {
    return timeout(promise, ms).catch(err => {
      if (err === TimeoutError) {
        notify(ms)
      }
      return Promise.reject(err)
    })
  }
  \<close>
  This is the \<open>handle\<close> of deadline.js. The result is the promise, the list of the
  arguments with which the observer was called, and the user state. An observer that
  throws makes the reaction throw, which rejects the promise with that exception.
\<close>

definition handle_deadline ::
  "nat \<times> 'v state \<Rightarrow> int \<Rightarrow> (int, 'w) callback \<Rightarrow> 'w \<Rightarrow> (nat \<times> 'v state) \<times> int list \<times> 'w" where
  "handle_deadline promise ms slot w =
     (case timeout promise ms of
        (t, Rejected e) \<Rightarrow>
          if e = TimeoutError then
            (let (_, exc, w1) = notify slot ms w
             in case exc of
                  Some x \<Rightarrow> ((t, Rejected x), [ms], w1)
                | None \<Rightarrow> ((t, Rejected e), [ms], w1))
          else ((t, Rejected e), [], w)
      | p \<Rightarrow> (p, [], w))"

text \<open>
  \<^verbatim>\<open>
  export default function deadline(run, ms) {
    if (typeof run !== 'function') {
      throw new Error('Expected `run` to be a function.')
    }
    const notifier = createNotifier()
    let promise = new Promise(resolve => resolve(run()))
    promise = ms ? handle(promise, ms, notifier.notify) : promise
    promise.notify = notifier.set
    return promise
  }
  \<close>
  As for \<open>retry\<close>, the call is synchronous and calls the task once; the reaction of
  \<open>handle\<close> runs later, when the observer has been registered.
\<close>

record ('v, 'w) deadlined =
  d_promise :: "nat \<times> 'v state"
  d_ms :: int
  d_notifier :: "(int, 'w) callback"
  d_world :: 'w

definition deadline :: "('v, 'w) task jsvalue \<Rightarrow> int \<Rightarrow> 'w \<Rightarrow> thrown + ('v, 'w) deadlined" where
  "deadline f ms w =
     (case f of
        NotFunction \<Rightarrow> Inl (Error ''Expected `run` to be a function.'')
      | Function fn \<Rightarrow>
          (let (out, w1) = fn w
           in Inr \<lparr>d_promise = executor out, d_ms = ms, d_notifier = createNotifier,
                    d_world = w1\<rparr>))"

definition deadlined_notify ::
  "'p \<Rightarrow> (int, 'w) callback jsvalue \<Rightarrow> ('v, 'w) deadlined \<Rightarrow> (thrown + 'p) \<times> ('v, 'w) deadlined" where
  "deadlined_notify this arg d =
     (let (res, slot) = set_notify this arg (d_notifier d) in (res, d\<lparr>d_notifier := slot\<rparr>))"

text \<open>The final state of the promise that \<open>deadline\<close> returned:
  \<^verbatim>\<open>ms ? handle(promise, ms, notifier.notify) : promise\<close>.\<close>

definition settle_deadline :: "('v, 'w) deadlined \<Rightarrow> (nat \<times> 'v state) \<times> int list \<times> 'w" where
  "settle_deadline d =
     (if d_ms d \<noteq> 0 then handle_deadline (d_promise d) (d_ms d) (d_notifier d) (d_world d)
      else (d_promise d, [], d_world d))"

section \<open>Programs that use the package\<close>

text \<open>
  The caller's program \<^verbatim>\<open>retry(type, run, retries, interval).notify(observer)\<close>,
  followed by everything that happens until the returned promise has reached its final
  state. The result is the exception thrown synchronously, or the final state of the
  promise and of the system.
\<close>

definition retry_observed ::
  "backoff \<Rightarrow> ('v, 'w) task jsvalue \<Rightarrow> int \<Rightarrow> int \<Rightarrow> (snapshot \<times> err, 'w) callback jsvalue \<Rightarrow>
     ('v, 'w) sys \<Rightarrow> thrown + 'v state \<times> ('v, 'w) sys" where
  "retry_observed ty f n interval observer s =
     (case retry ty f n interval s of
        Inl t \<Rightarrow> Inl t
      | Inr r \<Rightarrow>
          (case retrying_notify () observer r of
             (Inl t, _) \<Rightarrow> Inl t
           | (Inr _, r') \<Rightarrow> Inr (settle r')))"

text \<open>The same for \<^verbatim>\<open>deadline(run, ms).notify(observer)\<close>: the result is the promise, the
  arguments of the observer's calls, and the user state.\<close>

definition deadline_observed ::
  "('v, 'w) task jsvalue \<Rightarrow> int \<Rightarrow> (int, 'w) callback jsvalue \<Rightarrow> 'w \<Rightarrow>
     thrown + (nat \<times> 'v state) \<times> int list \<times> 'w" where
  "deadline_observed f ms observer w =
     (case deadline f ms w of
        Inl t \<Rightarrow> Inl t
      | Inr d \<Rightarrow>
          (case deadlined_notify () observer d of
             (Inl t, _) \<Rightarrow> Inl t
           | (Inr _, d') \<Rightarrow> Inr (settle_deadline d')))"

text \<open>What can be seen of a run: the trace and the final state of the promise.\<close>

definition events :: "thrown + 'v state \<times> ('v, 'w) sys \<Rightarrow> 'v event list" where
  "events res = (case res of Inl _ \<Rightarrow> [] | Inr (p, s) \<Rightarrow> trace s)"

definition final :: "thrown + 'v state \<times> ('v, 'w) sys \<Rightarrow> 'v state option" where
  "final res = (case res of Inl _ \<Rightarrow> None | Inr (p, s) \<Rightarrow> Some p)"

section \<open>Vocabulary of the properties\<close>

text \<open>The schedule that \<open>createContext\<close> builds for a back-off type.\<close>

definition schedule :: "backoff \<Rightarrow> int \<Rightarrow> int \<Rightarrow> int list" where
  "schedule ty n interval =
     (if ty = EXPONENTIAL then createExponentialIntervals n interval
      else createConstantIntervals n interval)"

text \<open>\<open>xs[0]\<close> of an array, \<open>undefined\<close> when it is empty.\<close>

definition front :: "int list \<Rightarrow> int option" where
  "front xs = (case xs of [] \<Rightarrow> None | x # _ \<Rightarrow> Some x)"

text \<open>An observer that returns normally whatever it is given, and a task whose every call
  fails, by a rejection or by an exception.\<close>

definition never_throws :: "('a, 'w) callback \<Rightarrow> bool" where
  "never_throws observer = (\<forall>a w. fst (snd (observer a w)) = None)"

definition always_fails :: "('v, 'w) task \<Rightarrow> bool" where
  "always_fails fn = (\<forall>w. \<exists>x. snd (executor (fst (fn w))) = Rejected x)"

text \<open>
  The task that does what \<open>fn\<close> does, except that where \<open>fn\<close> throws it returns a
  promise that is already rejected with the same value.
\<close>

definition rejecting :: "('v, 'w) task \<Rightarrow> ('v, 'w) task" where
  "rejecting fn w =
     (case fn w of (Throws e, w') \<Rightarrow> (Promise 0 (Rejected e), w') | other \<Rightarrow> other)"

text \<open>
  The events after the first call of the task, read as rounds of one retry each.
  \<open>delay_notify_task\<close>: in every round the delay elapses, then the observer is called,
  then the task (whose call is missing when the observer threw).
  \<open>notify_delay_task\<close> is the order that claim C1 states: in every round the observer
  is called, then the delay elapses, then the task is called.
  \<open>complete_rounds\<close>: every round is a delay, a call of the observer and a call of the
  task, in this order.
\<close>

fun delay_notify_task :: "'v event list \<Rightarrow> bool" where
  "delay_notify_task [] = True"
| "delay_notify_task (Delay d # Notify c e # Attempt p # tr) = delay_notify_task tr"
| "delay_notify_task (Delay d # Notify c e # tr) = delay_notify_task tr"
| "delay_notify_task _ = False"

fun notify_delay_task :: "'v event list \<Rightarrow> bool" where
  "notify_delay_task [] = True"
| "notify_delay_task (Notify c e # Delay d # Attempt p # tr) = notify_delay_task tr"
| "notify_delay_task _ = False"

fun complete_rounds :: "'v event list \<Rightarrow> bool" where
  "complete_rounds [] = True"
| "complete_rounds (Delay d # Notify c e # Attempt p # tr) = complete_rounds tr"
| "complete_rounds _ = False"

text \<open>
  \<open>retry_rounds fn obs e w tr\<close>: the events \<open>tr\<close> are the rounds that follow a
  failure \<open>e\<close> of the task \<open>fn\<close> in the user state \<open>w\<close>, with the observer
  \<open>obs\<close>. In every round the delay that elapses is the first interval of the context
  handed to the observer; the observer is called next, with that context and with the
  failure that caused the round; if it returns, the task is called directly after it, in
  the user state the observer left, and the event records the state the call reaches; if
  it throws, the task is not called and the exception is the failure of the next round.
  A call of the task that does not fail ends the trace.
\<close>

fun retry_rounds ::
  "('v, 'w) task \<Rightarrow> (snapshot \<times> err, 'w) callback \<Rightarrow> err \<Rightarrow> 'w \<Rightarrow> 'v event list \<Rightarrow> bool" where
  "retry_rounds fn obs e w [] = True"
| "retry_rounds fn obs e w (Delay d # Notify c e' # Attempt p # tr) =
     (d = front (snd c) \<and> e' = e \<and> fst (snd (obs (c, e) w)) = None
      \<and> p = snd (executor (fst (fn (snd (snd (obs (c, e) w))))))
      \<and> (case p of
            Rejected x \<Rightarrow> retry_rounds fn obs x (snd (fn (snd (snd (obs (c, e) w))))) tr
          | _ \<Rightarrow> tr = []))"
| "retry_rounds fn obs e w (Delay d # Notify c e' # tr) =
     (d = front (snd c) \<and> e' = e
      \<and> (case fst (snd (obs (c, e) w)) of
            Some x \<Rightarrow> retry_rounds fn obs x (snd (snd (obs (c, e) w))) tr
          | None \<Rightarrow> False))"
| "retry_rounds fn obs e w _ = False"

text \<open>The contexts given to the observer, the delays and the states reached by the calls
  of the task, each in the order of the trace.\<close>

fun snapshots :: "'v event list \<Rightarrow> snapshot list" where
  "snapshots [] = []"
| "snapshots (Notify c e # tr) = c # snapshots tr"
| "snapshots (_ # tr) = snapshots tr"

fun delays :: "'v event list \<Rightarrow> int option list" where
  "delays [] = []"
| "delays (Delay d # tr) = d # delays tr"
| "delays (_ # tr) = delays tr"

fun attempts :: "'v event list \<Rightarrow> 'v state list" where
  "attempts [] = []"
| "attempts (Attempt p # tr) = p # attempts tr"
| "attempts (_ # tr) = attempts tr"

text \<open>
  Concrete programs for the examples: an empty system, a task that rejects with the same
  value on every call, a task that throws, an observer that throws, an observer that
  overwrites both arrays of the context it is given, a task whose promise rejects with
  the exported \<open>TimeoutError\<close> after 1 ms, and a task that needs 1000 ms.
\<close>

definition start :: "(nat, unit) sys" where
  "start = \<lparr>heap = [], world = (), trace = []\<rparr>"

definition failing :: "(nat, unit) task" where
  "failing w = (Promise 0 (Rejected (Err 7)), w)"

definition throwing :: "(nat, unit) task" where
  "throwing w = (Throws (Err 9), w)"

definition thrower :: "(snapshot \<times> err, unit) callback" where
  "thrower a w = (a, Some (Err 5), w)"

definition scribbler :: "(snapshot \<times> err, unit) callback" where
  "scribbler a w = ((([99, 99, 99], []), snd a), None, w)"

definition timing_out :: "(nat, unit) task" where
  "timing_out w = (Promise 1 (Rejected TimeoutError), w)"

definition slow :: "(nat, unit) task" where
  "slow w = (Promise 1000 (Fulfilled 1), w)"

section \<open>One round of \<open>handle\<close>\<close>

text \<open>
  For the proofs the body of \<open>handle\<close> is split off: \<open>round\<close> is the branch
  \<open>done < max\<close> up to the next \<open>handle\<close>, and \<open>pending_retry\<close> is the test
  \<open>done < max\<close>. A context is well-formed in a store when its two arrays exist and
  are distinct, which is what \<open>createContext\<close> establishes.
\<close>

definition round ::
  "('v, 'w) task \<Rightarrow> (snapshot \<times> err, 'w) callback \<Rightarrow> retry_context \<Rightarrow> err \<Rightarrow>
     ('v, 'w) sys \<Rightarrow> 'v state \<times> ('v, 'w) sys" where
  "round fn slot c e s =
     (case read (heap s) (retries c) of
        done' # max' # rest \<Rightarrow>
            (let h1 = (heap s)[retries c := (done' + 1) # max' # rest];
                 (ctxClone, h2) = cloneContext c h1;
                 (d, h3) = shift (intervals c) h2;
                 snap = (read h3 (retries ctxClone), read h3 (intervals ctxClone));
                 ((snap', _), exc, w1) = notify slot (snap, e) (world s);
                 h4 = h3[retries ctxClone := fst snap', intervals ctxClone := snd snap'];
                 tr = trace s @ [Delay d, Notify snap e]
             in case exc of
                  Some x \<Rightarrow> (Rejected x, \<lparr>heap = h4, world = w1, trace = tr\<rparr>)
                | None \<Rightarrow>
                    (let (out, w2) = fn w1;
                         p = snd (executor out)
                     in (p, \<lparr>heap = h4, world = w2, trace = tr @ [Attempt p]\<rparr>)))
       | _ \<Rightarrow> (Rejected e, s))"

definition pending_retry :: "retry_context \<Rightarrow> heap \<Rightarrow> bool" where
  "pending_retry c h = (case read h (retries c) of d # m # _ \<Rightarrow> d < m | _ \<Rightarrow> False)"

definition retry_measure :: "retry_context \<Rightarrow> ('v, 'w) sys \<Rightarrow> nat \<times> nat" where
  "retry_measure c s =
     (length (read (heap s) (retries c)),
      case read (heap s) (retries c) of d # m # _ \<Rightarrow> nat (m - d) | _ \<Rightarrow> 0)"

definition wf_ctx :: "retry_context \<Rightarrow> heap \<Rightarrow> bool" where
  "wf_ctx c h = (retries c < length h \<and> intervals c < length h \<and> retries c \<noteq> intervals c)"

declare createConstantIntervals_loop.simps [simp del]
declare createExponentialIntervals_loop.simps [simp del]

section \<open>Lemmas\<close>

subsection \<open>Schedules\<close>

lemma createConstantIntervals_loop_eq:
  "createConstantIntervals_loop n v i res = res @ replicate (nat (n - i)) v"
proof (induction n v i res rule: createConstantIntervals_loop.induct)
  case (1 n v i res)
  show ?case
  proof (cases "i < n")
    case True
    then have "nat (n - i) = Suc (nat (n - (i + 1)))" by simp
    with True "1" show ?thesis
      by (subst createConstantIntervals_loop.simps) (simp add: replicate_app_Cons_same)
  next
    case False
    then show ?thesis
      by (subst createConstantIntervals_loop.simps) simp
  qed
qed

lemma createExponentialIntervals_loop_eq:
  "createExponentialIntervals_loop n v i res =
     res @ map (\<lambda>k. v * 2 ^ k) [0..<nat (n - i)]"
proof (induction n v i res rule: createExponentialIntervals_loop.induct)
  case (1 n v i res)
  show ?case
  proof (cases "i < n")
    case True
    then have len: "nat (n - i) = Suc (nat (n - (i + 1)))" by simp
    have "map (\<lambda>k. v * 2 ^ k) [0..<Suc (nat (n - (i + 1)))] =
            v # map (\<lambda>k. v * 2 * 2 ^ k) [0..<nat (n - (i + 1))]"
      by (simp add: upt_conv_Cons map_Suc_upt [symmetric] del: upt_Suc)
    with True "1" len show ?thesis
      by (subst createExponentialIntervals_loop.simps) simp
  next
    case False
    then show ?thesis
      by (subst createExponentialIntervals_loop.simps) simp
  qed
qed

lemma createConstantIntervals_eq:
  "createConstantIntervals n v = replicate (nat n) v"
  by (simp add: createConstantIntervals_def createConstantIntervals_loop_eq)

lemma createExponentialIntervals_eq:
  "createExponentialIntervals n v = map (\<lambda>k. v * 2 ^ k) [0..<nat n]"
  by (simp add: createExponentialIntervals_def createExponentialIntervals_loop_eq)

subsection \<open>Unfolding and induction for \<open>handle\<close>\<close>

lemma handle_unfold:
  "handle fn slot c e s =
     (if pending_retry c (heap s) then
        (case round fn slot c e s of
           (Rejected x, s1) \<Rightarrow> handle fn slot c x s1
         | (p, s1) \<Rightarrow> (p, s1))
      else (Rejected e, s))"
  apply (subst handle.simps)
  apply (simp add: round_def pending_retry_def Let_def split: list.splits prod.splits option.splits state.splits)
  done

lemma round_heap:
  assumes "read (heap s) (retries c) = d # m # rest" "round fn slot c e s = (p, s1)"
  obtains c' h2 dl h3 a b where
    "cloneContext c ((heap s)[retries c := (d + 1) # m # rest]) = (c', h2)"
    "shift (intervals c) h2 = (dl, h3)"
    "heap s1 = h3[retries c' := a, intervals c' := b]"
  using assms
  by (auto simp: round_def Let_def split: prod.splits option.splits)

lemma round_decreases:
  assumes "pending_retry c (heap s)" "round fn slot c e s = (p, s1)"
  shows "(retry_measure c s1, retry_measure c s) \<in> less_than <*lex*> less_than"
proof -
  from assms(1) obtain d m rest where r: "read (heap s) (retries c) = d # m # rest" and lt: "d < m"
    by (auto simp: pending_retry_def split: list.splits)
  from r assms(2) obtain c' h2 dl h3 a b where
    "cloneContext c ((heap s)[retries c := (d + 1) # m # rest]) = (c', h2)"
    "shift (intervals c) h2 = (dl, h3)"
    "heap s1 = h3[retries c' := a, intervals c' := b]"
    by (rule round_heap)
  with r have "read (heap s1) (retries c) =
      (if intervals c = retries c then m # rest else (d + 1) # m # rest)"
    by (simp add: retries_after_round)
  with r lt show ?thesis
    by (auto simp: retry_measure_def split: list.splits)
qed

lemma handle_induct [case_names step]:
  assumes step: "\<And>e s. (\<And>x s1. pending_retry c (heap s) \<Longrightarrow>
                   round fn slot c e s = (Rejected x, s1) \<Longrightarrow> P x s1) \<Longrightarrow> P e s"
  shows "P e s"
proof -
  have "wf (inv_image (less_than <*lex*> less_than) (retry_measure c :: ('a, 'b) sys \<Rightarrow> nat \<times> nat))"
    by (intro wf_inv_image wf_lex_prod wf_less_than)
  then have "\<forall>e. P e s"
  proof (induction s rule: wf_induct_rule)
    case (less s)
    show ?case
    proof
      fix e
      show "P e s"
      proof (rule step)
        fix x s1
        assume "pending_retry c (heap s)" "round fn slot c e s = (Rejected x, s1)"
        then have "(s1, s) \<in> inv_image (less_than <*lex*> less_than) (retry_measure c)"
          using round_decreases by (simp add: inv_image_def)
        with less show "P x s1" by blast
      qed
    qed
  qed
  then show ?thesis by blast
qed

lemma read_update_other: "a \<noteq> b \<Longrightarrow> read (h[b := xs]) a = read h a"
  by (simp add: read_def)

lemma round_wf:
  assumes wf: "wf_ctx c (heap s)" and r: "read (heap s) (retries c) = d # m # rest"
  shows "\<exists>h'. round fn slot c e s =
           (let snap = ((d + 1) # m # rest, read (heap s) (intervals c));
                tr = trace s @ [Delay (front (read (heap s) (intervals c))), Notify snap e];
                (_, exc, w1) = slot (snap, e) (world s)
            in case exc of
                 Some x \<Rightarrow> (Rejected x, \<lparr>heap = h', world = w1, trace = tr\<rparr>)
               | None \<Rightarrow>
                   (let (out, w2) = fn w1; p = snd (executor out)
                    in (p, \<lparr>heap = h', world = w2, trace = tr @ [Attempt p]\<rparr>)))
         \<and> wf_ctx c h' \<and> read h' (retries c) = (d + 1) # m # rest
         \<and> read h' (intervals c) = tl (read (heap s) (intervals c))"
proof -
  let ?h1 = "(heap s)[retries c := (d + 1) # m # rest]"
  obtain c' h2 where cl: "cloneContext c ?h1 = (c', h2)" by (cases "cloneContext c ?h1")
  obtain dl h3 where sh: "shift (intervals c) h2 = (dl, h3)" by (cases "shift (intervals c) h2")
  let ?ivs = "read (heap s) (intervals c)"
  let ?snap = "((d + 1) # m # rest, ?ivs)"
  obtain a b e' exc w1 where sl: "slot (?snap, e) (world s) = (((a, b), e'), exc, w1)"
    by (metis prod.exhaust)
  let ?h4 = "h3[retries c' := a, intervals c' := b]"
  from wf have v: "retries c < length (heap s)" "intervals c < length (heap s)"
    and ne: "retries c \<noteq> intervals c" by (simp_all add: wf_ctx_def)
  note f = cloneContext_fresh [OF cl]
  note g = shift_other [OF sh]
  have r1: "read ?h1 (retries c) = (d + 1) # m # rest" using v by (simp add: read_def)
  have i1: "read ?h1 (intervals c) = ?ivs" using v ne by (simp add: read_def)
  have r2: "read h2 (retries c) = (d + 1) # m # rest" using f(4) [of "retries c"] v r1 by simp
  have i2: "read h2 (intervals c) = ?ivs" using f(4) [of "intervals c"] v i1 by simp
  have cr: "read h2 (retries c') = (d + 1) # m # rest" using f(5) r1 by simp
  have ci: "read h2 (intervals c') = ?ivs"
    using cl v i1 by (auto simp: cloneContext_def alloc_def read_def nth_append)
  have nec: "retries c' \<noteq> intervals c" "intervals c' \<noteq> intervals c"
    "retries c' \<noteq> retries c" "intervals c' \<noteq> retries c"
    using f(1,2) v by simp_all
  have cr3: "read h3 (retries c') = (d + 1) # m # rest" using g(2) nec cr by simp
  have ci3: "read h3 (intervals c') = ?ivs" using g(2) nec ci by simp
  have r3: "read h3 (retries c) = (d + 1) # m # rest" using g(2) ne r2 by simp
  have i3: "read h3 (intervals c) = tl ?ivs" using g(3) i2 by simp
  have dl: "dl = front ?ivs"
    using sh i2 by (auto simp: shift_def front_def split: list.splits)
  have len3: "length h3 = length (heap s) + 2" using g(1) f(3) by simp
  have r4: "read ?h4 (retries c) = (d + 1) # m # rest"
    using r3 nec by (simp add: read_update_other)
  have i4: "read ?h4 (intervals c) = tl ?ivs"
    using i3 nec by (simp add: read_update_other)
  have wf4: "wf_ctx c ?h4" using v ne len3 by (simp add: wf_ctx_def)
  have "round fn slot c e s =
           (let snap = ?snap;
                tr = trace s @ [Delay (front ?ivs), Notify snap e];
                (_, exc, w1) = slot (snap, e) (world s)
            in case exc of
                 Some x \<Rightarrow> (Rejected x, \<lparr>heap = ?h4, world = w1, trace = tr\<rparr>)
               | None \<Rightarrow>
                   (let (out, w2) = fn w1; p = snd (executor out)
                    in (p, \<lparr>heap = ?h4, world = w2, trace = tr @ [Attempt p]\<rparr>)))"
    using r cl sh sl cr3 ci3 dl
    by (simp add: round_def Let_def notify_def split: prod.splits option.splits)
  with wf4 r4 i4 show ?thesis by blast
qed

subsection \<open>The order of the events\<close>

lemma round_trace:
  assumes "pending_retry c (heap s)" "round fn slot c e s = (p, s1)"
  shows "\<exists>dl snap. (trace s1 = trace s @ [Delay dl, Notify snap e] \<and> (\<exists>x. p = Rejected x))
                 \<or> trace s1 = trace s @ [Delay dl, Notify snap e, Attempt p]"
  using assms
  by (auto simp: round_def pending_retry_def Let_def split: list.splits prod.splits option.splits)

lemma delay_notify_task_throw:
  "delay_notify_task rs \<Longrightarrow> delay_notify_task (Delay d # Notify c e # rs)"
  by (cases rs rule: delay_notify_task.cases) simp_all

lemma handle_rounds:
  "handle fn slot c e s = (p, s') \<Longrightarrow> \<exists>rs. trace s' = trace s @ rs \<and> delay_notify_task rs"
proof (induction e s arbitrary: p s' rule: handle_induct [where fn = fn and slot = slot and c = c])
  case (step e s)
  show ?case
  proof (cases "pending_retry c (heap s)")
    case False
    with step.prems show ?thesis by (simp add: handle_unfold)
  next
    case True
    obtain q s1 where r: "round fn slot c e s = (q, s1)" by (cases "round fn slot c e s")
    from round_trace [OF True r] obtain dl snap where
      t: "(trace s1 = trace s @ [Delay dl, Notify snap e] \<and> (\<exists>x. q = Rejected x))
          \<or> trace s1 = trace s @ [Delay dl, Notify snap e, Attempt q]" by blast
    show ?thesis
    proof (cases "\<exists>x. q = Rejected x")
      case True
      then obtain x where q: "q = Rejected x" by blast
      with step.prems \<open>pending_retry c (heap s)\<close> r have "handle fn slot c x s1 = (p, s')"
        by (simp add: handle_unfold [of fn slot c e s])
      from step.IH [OF \<open>pending_retry c (heap s)\<close> r [unfolded q] this]
      obtain rs where "trace s' = trace s1 @ rs" "delay_notify_task rs" by blast
      with t show ?thesis by (auto simp: delay_notify_task_throw)
    next
      case False
      with step.prems \<open>pending_retry c (heap s)\<close> r have "p = q" "s' = s1"
        by (auto simp: handle_unfold [of fn slot c e s] split: state.splits)
      with t False show ?thesis by auto
    qed
  qed
qed

subsection \<open>Runs on a well-formed context\<close>

lemma snapshots_append: "snapshots (xs @ ys) = snapshots xs @ snapshots ys"
  by (induction xs rule: snapshots.induct) simp_all

lemma delays_append: "delays (xs @ ys) = delays xs @ delays ys"
  by (induction xs rule: delays.induct) simp_all

lemma attempts_append: "attempts (xs @ ys) = attempts xs @ attempts ys"
  by (induction xs rule: attempts.induct) simp_all

lemma round_wf_result:
  assumes wf: "wf_ctx c (heap s)" and r: "read (heap s) (retries c) = d # m # rest"
    and rd: "round fn slot c e s = (q, s1)"
  defines "snap \<equiv> ((d + 1) # m # rest, read (heap s) (intervals c))"
  defines "re \<equiv> snd (slot (snap, e) (world s))"
  shows "wf_ctx c (heap s1)" "read (heap s1) (retries c) = (d + 1) # m # rest"
    "read (heap s1) (intervals c) = tl (read (heap s) (intervals c))"
    "trace s1 = trace s @ Delay (front (read (heap s) (intervals c))) # Notify snap e
        # (case fst re of Some x \<Rightarrow> [] | None \<Rightarrow> [Attempt q])"
    "q = (case fst re of Some x \<Rightarrow> Rejected x | None \<Rightarrow> snd (executor (fst (fn (snd re)))))"
    "world s1 = (case fst re of Some x \<Rightarrow> snd re | None \<Rightarrow> snd (fn (snd re)))"
proof -
  obtain a exc w1 where sl: "slot (snap, e) (world s) = (a, exc, w1)"
    by (cases "slot (snap, e) (world s)") auto
  obtain out w2 where f: "fn w1 = (out, w2)" by (cases "fn w1")
  from round_wf [OF wf r, of fn slot e] obtain h' where
    eq: "round fn slot c e s =
           (let snap = ((d + 1) # m # rest, read (heap s) (intervals c));
                tr = trace s @ [Delay (front (read (heap s) (intervals c))), Notify snap e];
                (_, exc, w1) = slot (snap, e) (world s)
            in case exc of
                 Some x \<Rightarrow> (Rejected x, \<lparr>heap = h', world = w1, trace = tr\<rparr>)
               | None \<Rightarrow>
                   (let (out, w2) = fn w1; p = snd (executor out)
                    in (p, \<lparr>heap = h', world = w2, trace = tr @ [Attempt p]\<rparr>)))"
    and h': "wf_ctx c h'" "read h' (retries c) = (d + 1) # m # rest"
      "read h' (intervals c) = tl (read (heap s) (intervals c))"
    by blast
  have re: "fst re = exc" "snd re = w1" using sl by (simp_all add: re_def)
  have "heap s1 = h' \<and> trace s1 = trace s @ Delay (front (read (heap s) (intervals c)))
        # Notify snap e # (case exc of Some x \<Rightarrow> [] | None \<Rightarrow> [Attempt q])
      \<and> q = (case exc of Some x \<Rightarrow> Rejected x | None \<Rightarrow> snd (executor out))
      \<and> world s1 = (case exc of Some x \<Rightarrow> w1 | None \<Rightarrow> w2)"
  proof (cases exc)
    case None
    with eq rd sl f show ?thesis by (auto simp: Let_def snap_def)
  next
    case (Some x)
    with eq rd sl f show ?thesis by (auto simp: Let_def snap_def)
  qed
  with h' re f show "wf_ctx c (heap s1)" "read (heap s1) (retries c) = (d + 1) # m # rest"
    "read (heap s1) (intervals c) = tl (read (heap s) (intervals c))"
    "trace s1 = trace s @ Delay (front (read (heap s) (intervals c))) # Notify snap e
        # (case fst re of Some x \<Rightarrow> [] | None \<Rightarrow> [Attempt q])"
    "q = (case fst re of Some x \<Rightarrow> Rejected x | None \<Rightarrow> snd (executor (fst (fn (snd re)))))"
    "world s1 = (case fst re of Some x \<Rightarrow> snd re | None \<Rightarrow> snd (fn (snd re)))"
    by (simp_all split: option.splits)
qed

lemma map_upt_Suc_shift: "map f [0..<Suc K] = f 0 # map (\<lambda>k. f (Suc k)) [0..<K]"
  by (simp add: upt_conv_Cons map_Suc_upt [symmetric] del: upt_Suc)

lemma handle_wf:
  assumes "wf_ctx c (heap s)" "read (heap s) (retries c) = d # m # rest"
    "read (heap s) (intervals c) = ivs" "handle fn slot c e s = (p, s')"
  shows "\<exists>K rs. trace s' = trace s @ rs \<and> int K \<le> max 0 (m - d)
     \<and> snapshots rs = map (\<lambda>k. ((d + 1 + int k) # m # rest, drop k ivs)) [0..<K]
     \<and> delays rs = map (\<lambda>k. front (drop k ivs)) [0..<K]
     \<and> read (heap s') (retries c) = (d + int K) # m # rest
     \<and> read (heap s') (intervals c) = drop K ivs
     \<and> ((\<exists>x. p = Rejected x) \<longrightarrow> int K = max 0 (m - d))"
  using assms
proof (induction e s arbitrary: d ivs p s' rule: handle_induct [where fn = fn and slot = slot and c = c])
  case (step e s)
  show ?case
  proof (cases "pending_retry c (heap s)")
    case False
    with step.prems(2) have "\<not> d < m" by (simp add: pending_retry_def)
    moreover from False step.prems(4) have "p = Rejected e" "s' = s" by (simp_all add: handle_unfold)
    ultimately show ?thesis using step.prems(2,3)
      by (intro exI [of _ 0] exI [of _ "[]"]) simp
  next
    case True
    with step.prems(2) have lt: "d < m" by (simp add: pending_retry_def)
    obtain q s1 where r: "round fn slot c e s = (q, s1)" by (cases "round fn slot c e s")
    note rw = round_wf_result [OF step.prems(1,2) r]
    have wf1: "wf_ctx c (heap s1)" by (rule rw(1))
    have r1: "read (heap s1) (retries c) = (d + 1) # m # rest" by (rule rw(2))
    have i1: "read (heap s1) (intervals c) = tl ivs" using rw(3) step.prems(3) by simp
    obtain tl' where
      t1: "trace s1 = trace s @ Delay (front ivs) # Notify ((d + 1) # m # rest, ivs) e # tl'"
      and tl': "tl' = [] \<or> tl' = [Attempt q]"
      using rw(4) step.prems(3) by (auto split: option.splits)
    have sn1: "snapshots tl' = []" and dl1: "delays tl' = []" using tl' by auto
    show ?thesis
    proof (cases "\<exists>x. q = Rejected x")
      case True
      then obtain x where q: "q = Rejected x" by blast
      with step.prems(4) \<open>pending_retry c (heap s)\<close> r have h: "handle fn slot c x s1 = (p, s')"
        by (simp add: handle_unfold [of fn slot c e s])
      from step.IH [OF \<open>pending_retry c (heap s)\<close> r [unfolded q] wf1 r1 i1 h]
      obtain K rs where
        a: "trace s' = trace s1 @ rs" "int K \<le> max 0 (m - (d + 1))"
        "snapshots rs = map (\<lambda>k. ((d + 1 + 1 + int k) # m # rest, drop k (tl ivs))) [0..<K]"
        "delays rs = map (\<lambda>k. front (drop k (tl ivs))) [0..<K]"
        "read (heap s') (retries c) = (d + 1 + int K) # m # rest"
        "read (heap s') (intervals c) = drop K (tl ivs)"
        "(\<exists>x. p = Rejected x) \<longrightarrow> int K = max 0 (m - (d + 1))"
        by blast
      let ?rs = "Delay (front ivs) # Notify ((d + 1) # m # rest, ivs) e # tl' @ rs"
      have 1: "trace s' = trace s @ ?rs" using a(1) t1 by simp
      have 2: "int (Suc K) \<le> max 0 (m - d)" using a(2) lt by simp
      have 3: "snapshots ?rs = map (\<lambda>k. ((d + 1 + int k) # m # rest, drop k ivs)) [0..<Suc K]"
        unfolding map_upt_Suc_shift using a(3) sn1
        by (simp add: snapshots_append drop_Suc add.assoc add.commute del: upt_Suc)
      have 4: "delays ?rs = map (\<lambda>k. front (drop k ivs)) [0..<Suc K]"
        unfolding map_upt_Suc_shift using a(4) dl1
        by (simp add: delays_append drop_Suc del: upt_Suc)
      have 5: "read (heap s') (retries c) = (d + int (Suc K)) # m # rest" using a(5) by simp
      have 6: "read (heap s') (intervals c) = drop (Suc K) ivs" using a(6) by (simp add: drop_Suc)
      have 7: "(\<exists>x. p = Rejected x) \<longrightarrow> int (Suc K) = max 0 (m - d)" using a(7) lt by auto
      from 1 2 3 4 5 6 7 show ?thesis by blast
    next
      case False
      with step.prems(4) \<open>pending_retry c (heap s)\<close> r have e: "p = q" "s' = s1"
        by (auto simp: handle_unfold [of fn slot c e s] split: state.splits)
      let ?rs = "Delay (front ivs) # Notify ((d + 1) # m # rest, ivs) e # tl'"
      have "trace s' = trace s @ ?rs" using t1 e by simp
      moreover have "int (Suc 0) \<le> max 0 (m - d)" using lt by simp
      moreover have "snapshots ?rs = map (\<lambda>k. ((d + 1 + int k) # m # rest, drop k ivs)) [0..<Suc 0]"
        using sn1 by simp
      moreover have "delays ?rs = map (\<lambda>k. front (drop k ivs)) [0..<Suc 0]"
        using dl1 by simp
      moreover have "read (heap s') (retries c) = (d + int (Suc 0)) # m # rest" using r1 e by simp
      moreover have "read (heap s') (intervals c) = drop (Suc 0) ivs" using i1 e by (simp add: drop_Suc)
      moreover have "(\<exists>x. p = Rejected x) \<longrightarrow> int (Suc 0) = max 0 (m - d)" using False e by simp
      ultimately show ?thesis by blast
    qed
  qed
qed

lemma createContext_wf:
  assumes "createContext ty n i h = (c, h1)"
  shows "wf_ctx c h1" "read h1 (retries c) = [0, n]" "read h1 (intervals c) = schedule ty n i"
  using assms
  by (auto simp: createContext_def alloc_def wf_ctx_def read_def js_or_def schedule_def
      nth_append Let_def split: if_splits)

lemma retry_observed_Function:
  assumes "createContext ty (js_or n DEFAULT_RETRIES) (js_or i DEFAULT_INTERVAL) (heap s) = (c, h1)"
  shows "retry_observed ty (Function fn) n i (Function obs) s =
     Inr (let p0 = snd (executor (fst (fn (world s))));
              s0 = \<lparr>heap = h1, world = snd (fn (world s)), trace = trace s @ [Attempt p0]\<rparr>
          in case p0 of Rejected e \<Rightarrow> handle fn obs c e s0 | _ \<Rightarrow> (p0, s0))"
  using assms
  by (simp add: retry_observed_def retry_def retrying_notify_def set_notify_def settle_def
      Let_def split: prod.splits state.splits)

lemma schedule_length: "length (schedule ty n i) = nat n"
  by (simp add: schedule_def createConstantIntervals_eq createExponentialIntervals_eq)

lemma round_quiet:
  assumes "pending_retry c (heap s)" "never_throws slot" "round fn slot c e s = (q, s1)"
  shows "\<exists>dl snap. trace s1 = trace s @ [Delay dl, Notify snap e, Attempt q]"
proof -
  from assms(1) obtain d m rest where r: "read (heap s) (retries c) = d # m # rest"
    by (auto simp: pending_retry_def split: list.splits)
  have nt: "\<And>a w x y z. slot a w = (x, y, z) \<Longrightarrow> y = None"
  proof -
    fix a w x y z
    assume "slot a w = (x, y, z)"
    moreover from assms(2) have "fst (snd (slot a w)) = None"
      unfolding never_throws_def by blast
    ultimately show "y = None" by simp
  qed
  show ?thesis
    using assms(3) r
    by (auto simp: round_def Let_def notify_def split: prod.splits option.splits dest: nt)
qed

lemma round_state:
  assumes "pending_retry c (heap s)" "round fn slot c e s = (q, s1)"
  shows "(\<exists>x. q = Rejected x) \<or> (\<exists>w. q = snd (executor (fst (fn w))))"
proof -
  from assms(1) obtain d m rest where r: "read (heap s) (retries c) = d # m # rest"
    by (auto simp: pending_retry_def split: list.splits)
  show ?thesis
    using assms(2) r
    by (auto simp: round_def Let_def split: prod.splits option.splits) (metis fst_conv)
qed

lemma handle_always_fails:
  assumes "always_fails fn"
  shows "\<exists>x. fst (handle fn slot c e s) = Rejected x"
proof (induction e s rule: handle_induct [where fn = fn and slot = slot and c = c])
  case (step e s)
  show ?case
  proof (cases "pending_retry c (heap s)")
    case False
    then show ?thesis by (simp add: handle_unfold)
  next
    case True
    obtain q s1 where r: "round fn slot c e s = (q, s1)" by (cases "round fn slot c e s")
    from round_state [OF True r] assms obtain x where q: "q = Rejected x"
      by (auto simp: always_fails_def)
    from step [OF True r [unfolded q]] True r q show ?thesis
      by (simp add: handle_unfold [of fn slot c e s])
  qed
qed

lemma handle_quiet:
  assumes "never_throws slot" "handle fn slot c e s = (p, s')"
  shows "\<exists>rs. trace s' = trace s @ rs \<and> complete_rounds rs
           \<and> (rs = [] \<and> p = Rejected e \<or> rs \<noteq> [] \<and> last rs = Attempt p)"
  using assms(2)
proof (induction e s arbitrary: p s' rule: handle_induct [where fn = fn and slot = slot and c = c])
  case (step e s)
  show ?case
  proof (cases "pending_retry c (heap s)")
    case False
    with step.prems show ?thesis by (simp add: handle_unfold)
  next
    case True
    obtain q s1 where r: "round fn slot c e s = (q, s1)" by (cases "round fn slot c e s")
    from round_quiet [OF True assms(1) r] obtain dl snap where
      t: "trace s1 = trace s @ [Delay dl, Notify snap e, Attempt q]" by blast
    show ?thesis
    proof (cases "\<exists>x. q = Rejected x")
      case True
      then obtain x where q: "q = Rejected x" by blast
      with step.prems \<open>pending_retry c (heap s)\<close> r have "handle fn slot c x s1 = (p, s')"
        by (simp add: handle_unfold [of fn slot c e s])
      from step.IH [OF \<open>pending_retry c (heap s)\<close> r [unfolded q] this]
      obtain rs where rs: "trace s' = trace s1 @ rs" "complete_rounds rs"
        "rs = [] \<and> p = Rejected x \<or> rs \<noteq> [] \<and> last rs = Attempt p" by blast
      let ?rs = "Delay dl # Notify snap e # Attempt q # rs"
      have "trace s' = trace s @ ?rs" using rs(1) t by simp
      moreover have "complete_rounds ?rs" using rs(2) by simp
      moreover have "last ?rs = Attempt p" using rs(3) q by auto
      ultimately show ?thesis by blast
    next
      case False
      with step.prems \<open>pending_retry c (heap s)\<close> r have "p = q" "s' = s1"
        by (auto simp: handle_unfold [of fn slot c e s] split: state.splits)
      with t show ?thesis
        by (intro exI [of _ "[Delay dl, Notify snap e, Attempt q]"]) simp
    qed
  qed
qed

lemma complete_rounds_counts:
  "complete_rounds rs \<Longrightarrow> length (attempts rs) = length (snapshots rs)"
  by (induction rs rule: complete_rounds.induct) simp_all

lemma front_drop: "k < length xs \<Longrightarrow> front (drop k xs) = Some (xs ! k)"
  by (simp add: front_def Cons_nth_drop_Suc [symmetric])

text \<open>Everything the claims need about one run of a retry sequence.\<close>

lemma retry_observed_run:
  fixes fn :: "('v, 'w) task" and n i :: int and ty :: backoff
  defines "m \<equiv> js_or n DEFAULT_RETRIES"
  defines "ivs \<equiv> schedule ty (js_or n DEFAULT_RETRIES) (js_or i DEFAULT_INTERVAL)"
  shows "\<exists>p s' rs K. retry_observed ty (Function fn) n i (Function obs) s = Inr (p, s')
      \<and> trace s' = trace s @ Attempt (snd (executor (fst (fn (world s))))) # rs
      \<and> delay_notify_task rs
      \<and> int K \<le> max 0 m
      \<and> snapshots rs = map (\<lambda>k. ([1 + int k, m], drop k ivs)) [0..<K]
      \<and> delays rs = map (\<lambda>k. Some (ivs ! k)) [0..<K]
      \<and> ((\<exists>x. p = Rejected x) \<longrightarrow> int K = max 0 m)
      \<and> (never_throws obs \<longrightarrow> complete_rounds rs
            \<and> last (Attempt (snd (executor (fst (fn (world s))))) # rs) = Attempt p)
      \<and> (always_fails fn \<longrightarrow> (\<exists>x. p = Rejected x))"
proof -
  obtain c h1 where cc:
    "createContext ty (js_or n DEFAULT_RETRIES) (js_or i DEFAULT_INTERVAL) (heap s) = (c, h1)"
    by (cases "createContext ty (js_or n DEFAULT_RETRIES) (js_or i DEFAULT_INTERVAL) (heap s)")
  let ?p0 = "snd (executor (fst (fn (world s))))"
  let ?s0 = "\<lparr>heap = h1, world = snd (fn (world s)), trace = trace s @ [Attempt ?p0]\<rparr>"
  note eq = retry_observed_Function [OF cc, of fn obs]
  note w = createContext_wf [OF cc]
  show ?thesis
  proof (cases "\<exists>e. ?p0 = Rejected e")
    case True
    then obtain e where e: "?p0 = Rejected e" by blast
    obtain p s' where h: "handle fn obs c e ?s0 = (p, s')" by (cases "handle fn obs c e ?s0")
    from eq e h have 1: "retry_observed ty (Function fn) n i (Function obs) s = Inr (p, s')"
      by (simp add: Let_def)
    from handle_rounds [OF h] obtain rs where
      rs: "trace s' = trace ?s0 @ rs" "delay_notify_task rs" by blast
    have "wf_ctx c (heap ?s0)" "read (heap ?s0) (retries c) = 0 # m # []"
      "read (heap ?s0) (intervals c) = ivs"
      using w by (simp_all add: m_def ivs_def)
    from handle_wf [OF this h] obtain K rs' where
      k: "trace s' = trace ?s0 @ rs'" "int K \<le> max 0 (m - 0)"
      "snapshots rs' = map (\<lambda>k. ([0 + 1 + int k, m], drop k ivs)) [0..<K]"
      "delays rs' = map (\<lambda>k. front (drop k ivs)) [0..<K]"
      "(\<exists>x. p = Rejected x) \<longrightarrow> int K = max 0 (m - 0)"
      by blast
    from k(1) rs(1) have same: "rs' = rs" by simp
    have len: "length ivs = nat m" by (simp add: ivs_def m_def schedule_length)
    have kl: "K \<le> length ivs" using k(2) len by simp
    have d: "delays rs = map (\<lambda>k. Some (ivs ! k)) [0..<K]"
      using k(4) kl unfolding same by (simp add: front_drop)
    have q: "never_throws obs \<longrightarrow> complete_rounds rs \<and> last (Attempt ?p0 # rs) = Attempt p"
    proof
      assume "never_throws obs"
      from handle_quiet [OF this h] obtain rs2 where
        "trace s' = trace ?s0 @ rs2" "complete_rounds rs2"
        "rs2 = [] \<and> p = Rejected e \<or> rs2 \<noteq> [] \<and> last rs2 = Attempt p" by blast
      with rs(1) e show "complete_rounds rs \<and> last (Attempt ?p0 # rs) = Attempt p" by auto
    qed
    have af: "always_fails fn \<longrightarrow> (\<exists>x. p = Rejected x)"
      using handle_always_fails [of fn obs c e ?s0] h by simp
    from 1 rs k(2,3,5) d q af show ?thesis
      unfolding same by (intro exI [of _ p] exI [of _ s'] exI [of _ rs] exI [of _ K]) simp
  next
    case False
    with eq have 1: "retry_observed ty (Function fn) n i (Function obs) s = Inr (?p0, ?s0)"
      by (auto simp: Let_def split: state.splits)
    from False have "\<not> always_fails fn" by (auto simp: always_fails_def)
    with 1 False show ?thesis
      by (intro exI [of _ ?p0] exI [of _ ?s0] exI [of _ "[]"] exI [of _ 0]) simp
  qed
qed

subsection \<open>The rounds of a run\<close>

lemma retry_rounds_throw:
  assumes "fst (snd (obs (c, e) w)) = Some x" "retry_rounds fn obs x (snd (snd (obs (c, e) w))) rs"
  shows "retry_rounds fn obs e w (Delay (front (snd c)) # Notify c e # rs)"
proof (cases rs)
  case Nil
  with assms show ?thesis by simp
next
  case (Cons ev rs')
  with assms show ?thesis by (cases ev) simp_all
qed

lemma handle_replay:
  assumes "wf_ctx c (heap s)" "handle fn slot c e s = (p, s')"
  shows "\<exists>rs. trace s' = trace s @ rs \<and> retry_rounds fn slot e (world s) rs"
  using assms
proof (induction e s arbitrary: p s' rule: handle_induct [where fn = fn and slot = slot and c = c])
  case (step e s)
  show ?case
  proof (cases "pending_retry c (heap s)")
    case False
    with step.prems show ?thesis by (simp add: handle_unfold)
  next
    case True
    then obtain d m rest where rr: "read (heap s) (retries c) = d # m # rest"
      by (auto simp: pending_retry_def split: list.splits)
    obtain q s1 where r: "round fn slot c e s = (q, s1)" by (cases "round fn slot c e s")
    let ?snap = "((d + 1) # m # rest, read (heap s) (intervals c))"
    let ?re = "snd (slot (?snap, e) (world s))"
    note rw = round_wf_result [OF step.prems(1) rr r]
    show ?thesis
    proof (cases "fst ?re")
      case (Some x)
      with rw have q: "q = Rejected x" and w1: "world s1 = snd ?re"
        and t1: "trace s1 = trace s @ [Delay (front (snd ?snap)), Notify ?snap e]"
        by simp_all
      from step.prems(2) True r q have h: "handle fn slot c x s1 = (p, s')"
        by (simp add: handle_unfold [of fn slot c e s])
      from step.IH [OF True r [unfolded q] rw(1) h] obtain rs where
        rs: "trace s' = trace s1 @ rs" "retry_rounds fn slot x (world s1) rs" by blast
      from Some rs(2) have "retry_rounds fn slot e (world s)
          (Delay (front (snd ?snap)) # Notify ?snap e # rs)"
        unfolding w1 by (intro retry_rounds_throw) simp_all
      with rs(1) t1 show ?thesis by auto
    next
      case None
      with rw have q: "q = snd (executor (fst (fn (snd ?re))))"
        and w1: "world s1 = snd (fn (snd ?re))"
        and t1: "trace s1 = trace s @ [Delay (front (snd ?snap)), Notify ?snap e, Attempt q]"
        by simp_all
      show ?thesis
      proof (cases "\<exists>x. q = Rejected x")
        case True
        then obtain x where x: "q = Rejected x" by blast
        from step.prems(2) \<open>pending_retry c (heap s)\<close> r x have h: "handle fn slot c x s1 = (p, s')"
          by (simp add: handle_unfold [of fn slot c e s])
        from step.IH [OF \<open>pending_retry c (heap s)\<close> r [unfolded x] rw(1) h] obtain rs where
          rs: "trace s' = trace s1 @ rs" "retry_rounds fn slot x (world s1) rs" by blast
        from q x have qx: "snd (executor (fst (fn (snd ?re)))) = Rejected x" by simp
        have "retry_rounds fn slot e (world s)
            (Delay (front (snd ?snap)) # Notify ?snap e # Attempt q # rs)"
          unfolding x using None qx rs(2) [unfolded w1] by simp
        with rs(1) t1 show ?thesis by auto
      next
        case False
        with step.prems(2) \<open>pending_retry c (heap s)\<close> r have "p = q" "s' = s1"
          by (auto simp: handle_unfold [of fn slot c e s] split: state.splits)
        moreover have "retry_rounds fn slot e (world s)
            [Delay (front (snd ?snap)), Notify ?snap e, Attempt q]"
          using None q False by (auto split: state.splits)
        ultimately show ?thesis using t1 by auto
      qed
    qed
  qed
qed

subsection \<open>Independence of what the observer writes, and of how the task fails\<close>

lemma executor_rejecting:
  "snd (executor (fst (rejecting fn w))) = snd (executor (fst (fn w)))"
  "snd (rejecting fn w) = snd (fn w)"
  by (auto simp: rejecting_def split: prod.splits outcome.splits)

lemma executor_rejecting_full: "executor (fst (rejecting fn w)) = executor (fst (fn w))"
  by (auto simp: rejecting_def split: prod.splits outcome.splits)

lemma round_rejecting: "round (rejecting fn) slot c e s = round fn slot c e s"
  unfolding round_def Let_def
  by (auto simp: rejecting_def split: list.splits prod.splits option.splits outcome.splits)

lemma handle_rejecting: "handle (rejecting fn) slot c e s = handle fn slot c e s"
proof (induction e s rule: handle_induct [where fn = fn and slot = slot and c = c])
  case (step e s)
  show ?case
  proof (cases "pending_retry c (heap s)")
    case False
    then show ?thesis by (simp add: handle_unfold)
  next
    case True
    obtain q s1 where r: "round fn slot c e s = (q, s1)" by (cases "round fn slot c e s")
    show ?thesis
    proof (cases "\<exists>x. q = Rejected x")
      case True
      then obtain x where q: "q = Rejected x" by blast
      from step [OF \<open>pending_retry c (heap s)\<close> r [unfolded q]] r q \<open>pending_retry c (heap s)\<close>
      show ?thesis
        by (simp add: handle_unfold [of _ slot c e s] round_rejecting)
    next
      case False
      with r \<open>pending_retry c (heap s)\<close> show ?thesis
        by (auto simp: handle_unfold [of _ slot c e s] round_rejecting split: state.splits)
    qed
  qed
qed

lemma handle_noninterference:
  assumes agree: "\<And>a w. snd (slot1 a w) = snd (slot2 a w)"
    and "wf_ctx c (heap s)" "wf_ctx c (heap t)"
    "read (heap s) (retries c) = read (heap t) (retries c)"
    "read (heap s) (intervals c) = read (heap t) (intervals c)"
    "world s = world t" "trace s = trace t"
    "handle fn slot1 c e s = (p, s')" "handle fn slot2 c e t = (q, t')"
  shows "p = q \<and> world s' = world t' \<and> trace s' = trace t'
       \<and> read (heap s') (retries c) = read (heap t') (retries c)
       \<and> read (heap s') (intervals c) = read (heap t') (intervals c)"
  using assms(2-)
proof (induction e s arbitrary: t p q s' t' rule: handle_induct [where fn = fn and slot = slot1 and c = c])
  case (step e s)
  have pe: "pending_retry c (heap t) = pending_retry c (heap s)"
    using step.prems(3) by (simp add: pending_retry_def)
  show ?case
  proof (cases "pending_retry c (heap s)")
    case False
    with pe step.prems show ?thesis by (simp add: handle_unfold)
  next
    case True
    then obtain d m rest where rs: "read (heap s) (retries c) = d # m # rest"
      by (auto simp: pending_retry_def split: list.splits)
    with step.prems(3) have rt: "read (heap t) (retries c) = d # m # rest" by simp
    obtain q1 s1 where r1: "round fn slot1 c e s = (q1, s1)" by (cases "round fn slot1 c e s")
    obtain q2 t1 where r2: "round fn slot2 c e t = (q2, t1)" by (cases "round fn slot2 c e t")
    note a = round_wf_result [OF step.prems(1) rs r1]
    note b = round_wf_result [OF step.prems(2) rt r2]
    have sl: "snd (slot1 (((d + 1) # m # rest, read (heap s) (intervals c)), e) (world s)) =
              snd (slot2 (((d + 1) # m # rest, read (heap t) (intervals c)), e) (world t))"
      using agree step.prems(4,5) by simp
    have qq: "q1 = q2" using a(5) [unfolded sl] b(5) by simp
    have ww: "world s1 = world t1" using a(6) [unfolded sl] b(6) by simp
    have tt: "trace s1 = trace t1"
      using a(4) [unfolded sl] b(4) step.prems(4,6) unfolding qq by simp
    have rr: "read (heap s1) (retries c) = read (heap t1) (retries c)" using a(2) b(2) by simp
    have ii: "read (heap s1) (intervals c) = read (heap t1) (intervals c)"
      using a(3) b(3) step.prems(4) by simp
    show ?thesis
    proof (cases "\<exists>x. q1 = Rejected x")
      case True
      then obtain x where x: "q1 = Rejected x" by blast
      from step.prems(7) \<open>pending_retry c (heap s)\<close> r1 x have h1: "handle fn slot1 c x s1 = (p, s')"
        by (simp add: handle_unfold [of fn slot1 c e s])
      from step.prems(8) \<open>pending_retry c (heap s)\<close> pe r2 x qq have h2: "handle fn slot2 c x t1 = (q, t')"
        by (simp add: handle_unfold [of fn slot2 c e t])
      from step.IH [OF \<open>pending_retry c (heap s)\<close> r1 [unfolded x] a(1) b(1) rr ii ww tt h1 h2]
      show ?thesis .
    next
      case False
      with step.prems(7) \<open>pending_retry c (heap s)\<close> r1 have "p = q1" "s' = s1"
        by (auto simp: handle_unfold [of fn slot1 c e s] split: state.splits)
      moreover from False qq step.prems(8) \<open>pending_retry c (heap s)\<close> pe r2 have "q = q2" "t' = t1"
        by (auto simp: handle_unfold [of fn slot2 c e t] split: state.splits)
      ultimately show ?thesis using qq ww tt rr ii by simp
    qed
  qed
qed

lemma deadline_observed_Function:
  "deadline_observed (Function fn) ms (Function obs) w =
     Inr (if ms \<noteq> 0 then handle_deadline (executor (fst (fn w))) ms obs (snd (fn w))
          else (executor (fst (fn w)), [], snd (fn w)))"
  by (simp add: deadline_observed_def deadline_def deadlined_notify_def set_notify_def
      settle_deadline_def split: prod.splits)

lemma timeout_cases:
  "timeout (t, q) ms =
     (if q = Pending then (fst (delay ms), Rejected TimeoutError)
      else if t \<le> fst (delay ms) then (t, q) else (fst (delay ms), Rejected TimeoutError))"
  by (simp add: timeout_def delay_def)

lemma retry_rejecting:
  "retry_observed ty (Function (rejecting fn)) n i obs s = retry_observed ty (Function fn) n i obs s"
proof (cases obs)
  case NotFunction
  then show ?thesis
    by (simp add: retry_observed_def retry_def retrying_notify_def set_notify_def Let_def
        split: prod.splits)
next
  case (Function g)
  obtain c h1 where cc:
    "createContext ty (js_or n DEFAULT_RETRIES) (js_or i DEFAULT_INTERVAL) (heap s) = (c, h1)"
    by (cases "createContext ty (js_or n DEFAULT_RETRIES) (js_or i DEFAULT_INTERVAL) (heap s)")
  show ?thesis
    unfolding Function retry_observed_Function [OF cc]
    by (simp add: executor_rejecting handle_rejecting Let_def split: state.splits)
qed

lemmas run_defs = retry_observed_def retry_def constantRetry_def exponentialRetry_def
  retrying_notify_def set_notify_def settle_def createContext_def cloneContext_def alloc_def
  read_def shift_def js_or_def DEFAULT_RETRIES_def DEFAULT_INTERVAL_def notify_def noop_def
  createNotifier_def events_def final_def start_def failing_def thrower_def throwing_def
  scribbler_def createConstantIntervals_eq createExponentialIntervals_eq Let_def handle.simps

lemma never_throws_noop: "never_throws noop"
  by (simp add: never_throws_def noop_def)

lemma always_fails_failing: "always_fails failing"
  by (simp add: always_fails_def failing_def)

section \<open>The claims\<close>

text \<open>
  Claim C1, as amended. The claim puts the call of the observer before the delay; in the
  code the chain is \<open>delay(\<dots>).then(notify).then(fn)\<close>. For every retry sequence, with
  any observer: after the first call of the task the trace consists of the rounds of
  \<open>retry_rounds\<close>. In each round the back-off delay elapses first; the observer is
  called next, with the copy of the context (counters \<open>[k + 1, max]\<close> and the intervals
  from the \<open>k\<close>-th on in round \<open>k\<close>, the first of them being the delay that elapsed)
  and with the failure that caused the round; and the task is called directly after the
  observer has returned. If the observer throws, the task is not called in that round.
\<close>

theorem observer_called_after_delay:
  fixes fn :: "('v, 'w) task"
  shows "\<exists>p s' rs K. retry_observed ty (Function fn) n i (Function obs) s = Inr (p, s')
      \<and> trace s' = trace s @ Attempt (snd (executor (fst (fn (world s))))) # rs
      \<and> (case snd (executor (fst (fn (world s)))) of
            Rejected e \<Rightarrow> retry_rounds fn obs e (snd (fn (world s))) rs
          | _ \<Rightarrow> rs = [])
      \<and> snapshots rs =
          map (\<lambda>k. ([1 + int k, js_or n DEFAULT_RETRIES],
                     drop k (schedule ty (js_or n DEFAULT_RETRIES) (js_or i DEFAULT_INTERVAL))))
            [0..<K]"
proof -
  obtain c h1 where cc:
    "createContext ty (js_or n DEFAULT_RETRIES) (js_or i DEFAULT_INTERVAL) (heap s) = (c, h1)"
    by (cases "createContext ty (js_or n DEFAULT_RETRIES) (js_or i DEFAULT_INTERVAL) (heap s)")
  let ?p0 = "snd (executor (fst (fn (world s))))"
  let ?s0 = "\<lparr>heap = h1, world = snd (fn (world s)), trace = trace s @ [Attempt ?p0]\<rparr>"
  note eq = retry_observed_Function [OF cc, of fn obs]
  from retry_observed_run [of ty fn n i obs s] obtain p s' rs K where
    r: "retry_observed ty (Function fn) n i (Function obs) s = Inr (p, s')"
    "trace s' = trace s @ Attempt ?p0 # rs"
    "snapshots rs =
          map (\<lambda>k. ([1 + int k, js_or n DEFAULT_RETRIES],
                     drop k (schedule ty (js_or n DEFAULT_RETRIES) (js_or i DEFAULT_INTERVAL))))
            [0..<K]"
    by blast
  have "case ?p0 of Rejected e \<Rightarrow> retry_rounds fn obs e (snd (fn (world s))) rs | _ \<Rightarrow> rs = []"
  proof (cases "\<exists>e. ?p0 = Rejected e")
    case True
    then obtain e where e: "?p0 = Rejected e" by blast
    from eq e r(1) have h: "handle fn obs c e ?s0 = (p, s')" by (simp add: Let_def)
    have "wf_ctx c (heap ?s0)" using createContext_wf(1) [OF cc] by simp
    from handle_replay [OF this h] obtain rs' where
      "trace s' = trace ?s0 @ rs'" "retry_rounds fn obs e (world ?s0) rs'" by blast
    with r(2) e show ?thesis by simp
  next
    case False
    with eq r(1) have "s' = ?s0" by (auto simp: Let_def split: state.splits)
    with r(2) False show ?thesis by (auto split: state.splits)
  qed
  with r show ?thesis by blast
qed

text \<open>
  Witness for C1: the exponential sequence of 3 retries with an observer that throws, and
  the constant sequence of 2 retries with the observer that does nothing.
\<close>

theorem observer_called_after_delay_witness:
  "events (retry_observed EXPONENTIAL (Function failing) 3 1000 (Function thrower) start) =
     [Attempt (Rejected (Err 7)),
      Delay (Some 1000), Notify ([1, 3], [1000, 2000, 4000]) (Err 7),
      Delay (Some 2000), Notify ([2, 3], [2000, 4000]) (Err 5),
      Delay (Some 4000), Notify ([3, 3], [4000]) (Err 5)]
   \<and> retry_rounds failing thrower (Err 7) ()
       (tl (events (retry_observed EXPONENTIAL (Function failing) 3 1000 (Function thrower) start)))
   \<and> events (retry_observed CONSTANT (Function failing) 2 1000 (Function noop) start) =
     [Attempt (Rejected (Err 7)),
      Delay (Some 1000), Notify ([1, 2], [1000, 1000]) (Err 7), Attempt (Rejected (Err 7)),
      Delay (Some 1000), Notify ([2, 2], [1000]) (Err 7), Attempt (Rejected (Err 7))]
   \<and> retry_rounds failing noop (Err 7) ()
       (tl (events (retry_observed CONSTANT (Function failing) 2 1000 (Function noop) start)))"
proof -
  have a: "events (retry_observed EXPONENTIAL (Function failing) 3 1000 (Function thrower) start) =
     [Attempt (Rejected (Err 7)),
      Delay (Some 1000), Notify ([1, 3], [1000, 2000, 4000]) (Err 7),
      Delay (Some 2000), Notify ([2, 3], [2000, 4000]) (Err 5),
      Delay (Some 4000), Notify ([3, 3], [4000]) (Err 5)]"
    by (simp add: run_defs numeral_3_eq_3)
  have b: "events (retry_observed CONSTANT (Function failing) 2 1000 (Function noop) start) =
     [Attempt (Rejected (Err 7)),
      Delay (Some 1000), Notify ([1, 2], [1000, 1000]) (Err 7), Attempt (Rejected (Err 7)),
      Delay (Some 1000), Notify ([2, 2], [1000]) (Err 7), Attempt (Rejected (Err 7))]"
    by (simp add: run_defs numeral_2_eq_2)
  from observer_called_after_delay [of EXPONENTIAL failing 3 1000 thrower start]
  have c: "retry_rounds failing thrower (Err 7) ()
       (tl (events (retry_observed EXPONENTIAL (Function failing) 3 1000 (Function thrower) start)))"
    by (auto simp: events_def start_def failing_def)
  from observer_called_after_delay [of CONSTANT failing 2 1000 noop start]
  have d: "retry_rounds failing noop (Err 7) ()
       (tl (events (retry_observed CONSTANT (Function failing) 2 1000 (Function noop) start)))"
    by (auto simp: events_def start_def failing_def)
  show ?thesis by (rule conjI [OF a conjI [OF c conjI [OF b d]]])
qed

text \<open>
  Counterexample to C1 as stated: with one retry of 1000 ms the delay is the second
  event and the call of the observer the third, so the rounds are not of the form
  observer, delay, task.
\<close>

theorem observer_before_delay_counterexample:
  "events (retry_observed CONSTANT (Function failing) 1 1000 (Function noop) start) =
     [Attempt (Rejected (Err 7)), Delay (Some 1000), Notify ([1, 1], [1000]) (Err 7),
      Attempt (Rejected (Err 7))]
   \<and> \<not> notify_delay_task
         (tl (events (retry_observed CONSTANT (Function failing) 1 1000 (Function noop) start)))"
  by (simp add: run_defs)

text \<open>
  Claim C2, evaluated on the code. The claim says that \<open>retries = 0\<close> gives an empty
  schedule, one call of the task and no call of the observer. In the code
  \<open>retries || DEFAULT_RETRIES\<close> turns 0 into 1: a call with 0 retries is the call with
  1 retry, and against a task that always fails the task is called twice and the
  observer once.
\<close>

theorem zero_retries_retry_once:
  "retry ty f 0 interval s = retry ty f 1 interval s
   \<and> events (retry_observed CONSTANT (Function failing) 0 1000 (Function noop) start) =
       [Attempt (Rejected (Err 7)), Delay (Some 1000), Notify ([1, 1], [1000]) (Err 7),
        Attempt (Rejected (Err 7))]"
proof -
  have "retry ty f 0 interval s = retry ty f 1 interval s"
    by (cases f) (simp_all add: retry_def js_or_def DEFAULT_RETRIES_def)
  moreover have "events (retry_observed CONSTANT (Function failing) 0 1000 (Function noop) start) =
       [Attempt (Rejected (Err 7)), Delay (Some 1000), Notify ([1, 1], [1000]) (Err 7),
        Attempt (Rejected (Err 7))]"
    by (simp add: run_defs)
  ultimately show ?thesis by simp
qed

text \<open>
  Claim C3, as amended. For \<open>ms > 0\<close>, with the timer firing at \<open>fst (delay ms)\<close>
  (that is after \<open>ms\<close> milliseconds for \<open>ms\<close> up to \<open>2147483647\<close>, and after 1
  millisecond beyond): the observer is called at most once, with \<open>ms\<close>; if the task
  settles before the timer with a success or with a failure other than \<open>TimeoutError\<close>,
  that outcome is forwarded unchanged and the observer is not called; the observer is
  called when the timer elapses first (the task is later or never settles) and also when
  the task's own failure is the \<open>TimeoutError\<close> value, since the reaction tests
  \<open>err === TimeoutError\<close> only.
\<close>

theorem deadline_notification:
  assumes "0 < ms" "fn w = (out, w1)" "executor out = (t, q)"
  shows "\<exists>p ns w'. deadline_observed (Function fn) ms (Function obs) w = Inr (p, ns, w')
      \<and> fst (delay ms) = (if ms \<le> 2147483647 then nat ms else 1)
      \<and> (ns = [] \<or> ns = [ms])
      \<and> (t < fst (delay ms) \<and> q \<noteq> Pending \<and> q \<noteq> Rejected TimeoutError
            \<longrightarrow> p = (t, q) \<and> ns = [] \<and> w' = w1)
      \<and> (q = Pending \<or> fst (delay ms) < t \<or> q = Rejected TimeoutError \<longrightarrow> ns = [ms])"
proof -
  obtain a exc w2 where o: "obs ms w1 = (a, exc, w2)" by (cases "obs ms w1") auto
  have d: "fst (delay ms) = (if ms \<le> 2147483647 then nat ms else 1)"
    using assms(1) by (simp add: delay_def)
  have "\<exists>p ns w'. deadline_observed (Function fn) ms (Function obs) w = Inr (p, ns, w')
      \<and> (ns = [] \<or> ns = [ms])
      \<and> (t < fst (delay ms) \<and> q \<noteq> Pending \<and> q \<noteq> Rejected TimeoutError
            \<longrightarrow> p = (t, q) \<and> ns = [] \<and> w' = w1)
      \<and> (q = Pending \<or> fst (delay ms) < t \<or> q = Rejected TimeoutError \<longrightarrow> ns = [ms])"
    using assms o
    by (cases q; cases exc)
      (auto simp: deadline_observed_Function handle_deadline_def timeout_cases notify_def)
  with d show ?thesis by blast
qed

text \<open>
  Witness for C3: under a deadline of 500 ms, a task that needs 1000 ms (the timer is
  first, the observer is called once with 500) and a task that fails at once with another
  value (its failure is forwarded, the observer is not called); and a task that needs
  1000 ms under a deadline of \<open>2147483648\<close> ms, whose timer fires after 1 ms.
\<close>

theorem deadline_notification_witness:
  "(0::int) < 500
   \<and> slow () = (Promise 1000 (Fulfilled 1), ())
   \<and> executor (Promise 1000 (Fulfilled (1::nat))) = (1000, Fulfilled 1)
   \<and> deadline_observed (Function slow) 500 (Function noop) () =
       Inr ((500, Rejected TimeoutError), [500], ())
   \<and> throwing () = (Throws (Err 9), ())
   \<and> executor (Throws (Err 9) :: nat outcome) = (0, Rejected (Err 9))
   \<and> deadline_observed (Function throwing) 500 (Function noop) () =
       Inr ((0, Rejected (Err 9)), [], ())
   \<and> (0::int) < 2147483648
   \<and> deadline_observed (Function slow) 2147483648 (Function noop) () =
       Inr ((1, Rejected TimeoutError), [2147483648], ())"
proof -
  have a: "(0::int) < 500" by simp
  have a2: "(0::int) < 2147483648" by simp
  have b: "slow () = (Promise 1000 (Fulfilled 1), ())" by (simp add: slow_def)
  have c: "executor (Promise 1000 (Fulfilled (1::nat))) = (1000, Fulfilled 1)" by simp
  have b': "throwing () = (Throws (Err 9), ())" by (simp add: throwing_def)
  have c': "executor (Throws (Err 9) :: nat outcome) = (0, Rejected (Err 9))" by simp
  from deadline_notification [where ms = 500 and fn = slow and w = "()" and obs = noop, OF a b c]
  have late: "\<exists>p w'. deadline_observed (Function slow) 500 (Function noop) () = Inr (p, [500], w')"
    by auto
  from deadline_notification [where ms = 500 and fn = throwing and w = "()" and obs = noop,
      OF a b' c']
  have early: "deadline_observed (Function throwing) 500 (Function noop) () =
       Inr ((0, Rejected (Err 9)), [], ())"
    by auto
  from deadline_notification [where ms = 2147483648 and fn = slow and w = "()" and obs = noop,
      OF a2 b c]
  have wrapped: "\<exists>p w'. deadline_observed (Function slow) 2147483648 (Function noop) () =
       Inr (p, [2147483648], w')"
    by auto
  have "deadline_observed (Function slow) 500 (Function noop) () =
       Inr ((500, Rejected TimeoutError), [500], ())"
    using late
    by (simp add: deadline_observed_Function handle_deadline_def timeout_def delay_def
      notify_def noop_def slow_def)
  moreover have "deadline_observed (Function slow) 2147483648 (Function noop) () =
       Inr ((1, Rejected TimeoutError), [2147483648], ())"
    using wrapped
    by (simp add: deadline_observed_Function handle_deadline_def timeout_def delay_def
      notify_def noop_def slow_def)
  ultimately show ?thesis using early a a2 b c b' c' by simp
qed

text \<open>
  Counterexample to C3 as stated: the task fails after 1 ms, long before the timer of
  500 ms, with the \<open>TimeoutError\<close> value, and the observer is called with 500.
\<close>

theorem deadline_sentinel_counterexample:
  "deadline_observed (Function timing_out) 500 (Function noop) () =
     Inr ((1, Rejected TimeoutError), [500], ())"
  by (simp add: deadline_observed_Function handle_deadline_def timeout_def delay_def
      notify_def noop_def timing_out_def)

text \<open>
  Claim C4. In every retry sequence the observer's \<open>k\<close>-th call (counted from 0)
  receives the counters \<open>[k + 1, max]\<close>, already incremented, and the intervals from
  the \<open>k\<close>-th on, whose first element is the delay consumed for this attempt.
\<close>

theorem snapshot_contents:
  fixes fn :: "('v, 'w) task"
  shows "\<exists>p s' p0 rs K. retry_observed ty (Function fn) n i (Function obs) s = Inr (p, s')
      \<and> trace s' = trace s @ Attempt p0 # rs
      \<and> int K \<le> max 0 (js_or n DEFAULT_RETRIES)
      \<and> snapshots rs =
          map (\<lambda>k. ([1 + int k, js_or n DEFAULT_RETRIES],
                     drop k (schedule ty (js_or n DEFAULT_RETRIES) (js_or i DEFAULT_INTERVAL))))
            [0..<K]
      \<and> delays rs =
          map (\<lambda>k. Some (schedule ty (js_or n DEFAULT_RETRIES) (js_or i DEFAULT_INTERVAL) ! k))
            [0..<K]
      \<and> map (front \<circ> snd) (snapshots rs) = delays rs"
proof -
  let ?m = "js_or n DEFAULT_RETRIES"
  let ?ivs = "schedule ty (js_or n DEFAULT_RETRIES) (js_or i DEFAULT_INTERVAL)"
  from retry_observed_run [of ty fn n i obs s]
  obtain p s' rs K where
    r: "retry_observed ty (Function fn) n i (Function obs) s = Inr (p, s')"
    "trace s' = trace s @ Attempt (snd (executor (fst (fn (world s))))) # rs"
    "int K \<le> max 0 ?m"
    "snapshots rs = map (\<lambda>k. ([1 + int k, ?m], drop k ?ivs)) [0..<K]"
    "delays rs = map (\<lambda>k. Some (?ivs ! k)) [0..<K]"
    by blast
  have "K \<le> length ?ivs" using r(3) by (simp add: schedule_length)
  then have "map (front \<circ> snd) (snapshots rs) = delays rs"
    unfolding r(4,5) by (simp add: front_drop)
  with r show ?thesis by blast
qed

text \<open>
  Witness for C4, the example of the claim: \<open>constantRetry\<close> with 3 retries of
  1000 ms against a task that always fails.
\<close>

theorem snapshot_contents_witness:
  "snapshots (events (retry_observed CONSTANT (Function failing) 3 1000 (Function noop) start)) =
     [([1, 3], [1000, 1000, 1000]), ([2, 3], [1000, 1000]), ([3, 3], [1000])]
   \<and> delays (events (retry_observed CONSTANT (Function failing) 3 1000 (Function noop) start)) =
     [Some 1000, Some 1000, Some 1000]"
  using snapshot_contents [of CONSTANT failing 3 1000 noop start]
  by (simp add: run_defs numeral_3_eq_3)

text \<open>
  Claim C5, as amended. For \<open>retries \<ge> 1\<close> and an observer that does not throw: every
  round after the first call of the task is a delay, one call of the observer and one
  call of the task, so the task is called once more than the observer, and at most
  \<open>1 + retries\<close> times.
\<close>

theorem observer_once_per_retry:
  fixes fn :: "('v, 'w) task"
  assumes "1 \<le> n" "never_throws obs"
  shows "\<exists>p s' p0 rs. retry_observed ty (Function fn) n i (Function obs) s = Inr (p, s')
      \<and> trace s' = trace s @ Attempt p0 # rs
      \<and> complete_rounds rs
      \<and> length (attempts (Attempt p0 # rs)) = 1 + length (snapshots rs)
      \<and> int (length (attempts (Attempt p0 # rs))) \<le> 1 + n"
proof -
  from assms(1) have m: "js_or n DEFAULT_RETRIES = n" by (simp add: js_or_def)
  from retry_observed_run [of ty fn n i obs s] assms(2)
  obtain p s' rs K where
    r: "retry_observed ty (Function fn) n i (Function obs) s = Inr (p, s')"
    "trace s' = trace s @ Attempt (snd (executor (fst (fn (world s))))) # rs"
    "int K \<le> max 0 n"
    "snapshots rs = map (\<lambda>k. ([1 + int k, n],
        drop k (schedule ty (js_or n DEFAULT_RETRIES) (js_or i DEFAULT_INTERVAL)))) [0..<K]"
    "complete_rounds rs"
    unfolding m by blast
  from r(4) have "length (snapshots rs) = K" by simp
  moreover from r(5) have "length (attempts rs) = length (snapshots rs)"
    by (rule complete_rounds_counts)
  ultimately show ?thesis using r(1,2,3,5) assms(1) by (intro exI conjI) auto
qed

text \<open>
  Witness for C5: three retries against a task that always fails.
\<close>

theorem observer_once_per_retry_witness:
  "(1::int) \<le> 3 \<and> never_throws (noop :: (snapshot \<times> err, unit) callback)
   \<and> length (attempts (events
        (retry_observed CONSTANT (Function failing) 3 1000 (Function noop) start))) = 4
   \<and> length (snapshots (events
        (retry_observed CONSTANT (Function failing) 3 1000 (Function noop) start))) = 3"
proof -
  have a: "(1::int) \<le> 3" by simp
  note b = never_throws_noop [where 'a = "snapshot \<times> err" and 'b = unit]
  note t = observer_once_per_retry [OF a b, of CONSTANT failing 1000 start]
  have "events (retry_observed CONSTANT (Function failing) 3 1000 (Function noop) start) =
    [Attempt (Rejected (Err 7)), Delay (Some 1000), Notify ([1, 3], [1000, 1000, 1000]) (Err 7),
     Attempt (Rejected (Err 7)), Delay (Some 1000), Notify ([2, 3], [1000, 1000]) (Err 7),
     Attempt (Rejected (Err 7)), Delay (Some 1000), Notify ([3, 3], [1000]) (Err 7),
     Attempt (Rejected (Err 7))]"
    by (simp add: run_defs numeral_3_eq_3)
  with a b t show ?thesis by simp
qed

text \<open>
  Counterexample to C5 as stated: with an observer that throws, the observer is called
  twice and the task only once; and with \<open>retries = 0\<close> the task is called twice,
  more than \<open>1 + 0\<close> times.
\<close>

theorem observer_count_counterexample:
  "length (attempts (events
      (retry_observed CONSTANT (Function failing) 2 1000 (Function thrower) start))) = 1
   \<and> length (snapshots (events
      (retry_observed CONSTANT (Function failing) 2 1000 (Function thrower) start))) = 2
   \<and> length (attempts (events
      (retry_observed CONSTANT (Function failing) 0 1000 (Function noop) start))) = 2"
  by (simp add: run_defs numeral_2_eq_2)

text \<open>
  Claim C6, as amended. If every call of the task fails and the observer does not throw,
  all retries are performed and the promise is rejected with the very value with which
  the last call of the task failed.
\<close>

theorem exhaustion_rejects_with_task_failure:
  fixes fn :: "('v, 'w) task"
  assumes "always_fails fn" "never_throws obs"
  shows "\<exists>e s' rs. retry_observed ty (Function fn) n i (Function obs) s = Inr (Rejected e, s')
      \<and> trace s' = trace s @ rs
      \<and> last rs = Attempt (Rejected e)
      \<and> int (length (snapshots rs)) = max 0 (js_or n DEFAULT_RETRIES)"
proof -
  from retry_observed_run [of ty fn n i obs s] assms
  obtain p s' rs K x where
    r: "retry_observed ty (Function fn) n i (Function obs) s = Inr (p, s')"
    "trace s' = trace s @ Attempt (snd (executor (fst (fn (world s))))) # rs"
    "snapshots rs = map (\<lambda>k. ([1 + int k, js_or n DEFAULT_RETRIES],
        drop k (schedule ty (js_or n DEFAULT_RETRIES) (js_or i DEFAULT_INTERVAL)))) [0..<K]"
    "(\<exists>x. p = Rejected x) \<longrightarrow> int K = max 0 (js_or n DEFAULT_RETRIES)"
    "last (Attempt (snd (executor (fst (fn (world s))))) # rs) = Attempt p"
    "p = Rejected x"
    by blast
  from r(3) have "length (snapshots rs) = K" by simp
  with r show ?thesis
    by (intro exI [of _ x] exI [of _ s']
        exI [of _ "Attempt (snd (executor (fst (fn (world s))))) # rs"]) simp
qed

text \<open>
  Witness for C6: three retries against a task that always fails with the same value.
\<close>

theorem exhaustion_rejects_with_task_failure_witness:
  "always_fails failing \<and> never_throws (noop :: (snapshot \<times> err, unit) callback)
   \<and> final (retry_observed CONSTANT (Function failing) 3 1000 (Function noop) start) =
       Some (Rejected (Err 7))"
proof -
  note t = exhaustion_rejects_with_task_failure [OF always_fails_failing
      never_throws_noop [where 'a = "snapshot \<times> err" and 'b = unit], of CONSTANT 3 1000 start]
  have "final (retry_observed CONSTANT (Function failing) 3 1000 (Function noop) start) =
       Some (Rejected (Err 7))"
    by (simp add: run_defs numeral_3_eq_3)
  with t always_fails_failing never_throws_noop show ?thesis by simp
qed

text \<open>
  Counterexample to C6 as stated: the task fails with \<open>Err 7\<close> on its only call, the
  observer throws \<open>Err 5\<close> in the one retry, and the promise is rejected with
  \<open>Err 5\<close>.
\<close>

theorem exhaustion_counterexample:
  "final (retry_observed CONSTANT (Function failing) 1 1000 (Function thrower) start) =
     Some (Rejected (Err 5))
   \<and> attempts (events
       (retry_observed CONSTANT (Function failing) 1 1000 (Function thrower) start)) =
     [Rejected (Err 7)]"
  by (simp add: run_defs)

text \<open>
  Claim C7. For all retries \<open>r \<ge> 1\<close> and every interval \<open>i\<close>, the constant schedule
  has length \<open>r\<close> and every element equal to \<open>i\<close>, and the exponential schedule has
  length \<open>r\<close> and its element at index \<open>k\<close> (counted from 0) is \<open>i \<times> 2^k\<close>.
\<close>

theorem schedule_shape:
  assumes "1 \<le> r"
  shows "int (length (createConstantIntervals r i)) = r
       \<and> (\<forall>k < length (createConstantIntervals r i). createConstantIntervals r i ! k = i)
       \<and> int (length (createExponentialIntervals r i)) = r
       \<and> (\<forall>k < length (createExponentialIntervals r i).
             createExponentialIntervals r i ! k = i * 2 ^ k)"
  using assms by (simp add: createConstantIntervals_eq createExponentialIntervals_eq)

theorem schedule_shape_witness:
  "(1::int) \<le> 3
   \<and> createConstantIntervals 3 100 = [100, 100, 100]
   \<and> createExponentialIntervals 3 100 = [100, 200, 400]"
proof -
  have h: "(1::int) \<le> 3" by simp
  note s = schedule_shape [OF h, of 100]
  have c: "createConstantIntervals 3 100 = [100, 100, 100]"
    using s by (simp add: list_eq_iff_nth_eq nth_Cons' )
  have e: "createExponentialIntervals 3 100 = [100, 200, 400]"
  proof -
    from s have l: "length (createExponentialIntervals 3 100) = 3" by simp
    from s l have "createExponentialIntervals 3 100 ! 0 = 100"
      "createExponentialIntervals 3 100 ! 1 = 200" "createExponentialIntervals 3 100 ! 2 = 400"
      by simp_all
    with l show ?thesis
      by (simp add: list_eq_iff_nth_eq nth_Cons' less_Suc_eq numeral_3_eq_3 numeral_2_eq_2)
  qed
  from h c e show ?thesis by simp
qed

text \<open>
  Claim C8. \<open>set\<close> with an argument that is not a function throws and leaves the slot,
  and with it the whole state of the retry or deadline, as it was; with a function it
  stores the function and returns its receiver.
\<close>

theorem notifier_registration:
  "set_notify this NotFunction slot = (Inl (Error ''Expected `notify` to be a function.''), slot)
   \<and> set_notify this (Function f) slot = (Inr this, f)
   \<and> retrying_notify this NotFunction r =
        (Inl (Error ''Expected `notify` to be a function.''), r)
   \<and> retrying_notify this (Function g) r = (Inr this, r\<lparr>r_notifier := g\<rparr>)
   \<and> deadlined_notify this NotFunction d =
        (Inl (Error ''Expected `notify` to be a function.''), d)
   \<and> deadlined_notify this (Function k) d = (Inr this, d\<lparr>d_notifier := k\<rparr>)"
  by (simp add: set_notify_def retrying_notify_def deadlined_notify_def)

text \<open>
  Claim C9. Two observers that throw the same and change the user state the same, but
  write different things into the context they are given, lead to the same final state,
  the same trace (and so the same contexts in all later calls) and the same contents of the
  engine's own two arrays.
\<close>

theorem observer_writes_stay_in_copy:
  assumes "\<forall>a w. snd (obs1 a w) = snd (obs2 a w)" "retry ty f n i s = Inr r"
  shows "fst (settle (r\<lparr>r_notifier := obs1\<rparr>)) = fst (settle (r\<lparr>r_notifier := obs2\<rparr>))
     \<and> world (snd (settle (r\<lparr>r_notifier := obs1\<rparr>))) = world (snd (settle (r\<lparr>r_notifier := obs2\<rparr>)))
     \<and> trace (snd (settle (r\<lparr>r_notifier := obs1\<rparr>))) = trace (snd (settle (r\<lparr>r_notifier := obs2\<rparr>)))
     \<and> read (heap (snd (settle (r\<lparr>r_notifier := obs1\<rparr>)))) (retries (r_ctx r)) =
       read (heap (snd (settle (r\<lparr>r_notifier := obs2\<rparr>)))) (retries (r_ctx r))
     \<and> read (heap (snd (settle (r\<lparr>r_notifier := obs1\<rparr>)))) (intervals (r_ctx r)) =
       read (heap (snd (settle (r\<lparr>r_notifier := obs2\<rparr>)))) (intervals (r_ctx r))"
proof (cases "\<exists>e. r_promise r = Rejected e")
  case False
  then show ?thesis by (auto simp: settle_def split: state.splits)
next
  case True
  then obtain e where e: "r_promise r = Rejected e" by blast
  from assms(2) obtain fn where f: "f = Function fn"
    by (cases f) (simp_all add: retry_def)
  obtain c h1 where cc:
    "createContext ty (js_or n DEFAULT_RETRIES) (js_or i DEFAULT_INTERVAL) (heap s) = (c, h1)"
    by (cases "createContext ty (js_or n DEFAULT_RETRIES) (js_or i DEFAULT_INTERVAL) (heap s)")
  from assms(2) f cc have r: "r_ctx r = c" "heap (r_sys r) = h1" "r_run r = fn"
    by (auto simp: retry_def Let_def split: prod.splits)
  note w = createContext_wf(1) [OF cc]
  obtain p s' where h1: "handle fn obs1 c e (r_sys r) = (p, s')"
    by (cases "handle fn obs1 c e (r_sys r)")
  obtain q t' where h2: "handle fn obs2 c e (r_sys r) = (q, t')"
    by (cases "handle fn obs2 c e (r_sys r)")
  have agree: "\<And>a w. snd (obs1 a w) = snd (obs2 a w)" using assms(1) by blast
  have wr: "wf_ctx c (heap (r_sys r))" using w r(2) by simp
  have "p = q \<and> world s' = world t' \<and> trace s' = trace t'
       \<and> read (heap s') (retries c) = read (heap t') (retries c)
       \<and> read (heap s') (intervals c) = read (heap t') (intervals c)"
    by (rule handle_noninterference [OF agree wr wr refl refl refl refl h1 h2])
  with e r h1 h2 show ?thesis by (simp add: settle_def)
qed

text \<open>
  Witness for C9: an observer that overwrites both arrays of every copy, against the
  observer that does nothing. The copies (addresses 2 to 7) differ, the engine's arrays
  (addresses 0 and 1) and the trace do not.
\<close>

theorem observer_writes_stay_in_copy_witness:
  "(\<forall>a w. snd (scribbler a w) = snd (noop a w))
   \<and> (case retry CONSTANT (Function failing) 3 1000 start of
        Inl t \<Rightarrow> False
      | Inr r \<Rightarrow>
          trace (snd (settle (r\<lparr>r_notifier := scribbler\<rparr>))) =
            trace (snd (settle (r\<lparr>r_notifier := noop\<rparr>)))
          \<and> heap (snd (settle (r\<lparr>r_notifier := scribbler\<rparr>))) =
              [[3, 3], [], [99, 99, 99], [], [99, 99, 99], [], [99, 99, 99], []]
          \<and> heap (snd (settle (r\<lparr>r_notifier := noop\<rparr>))) =
              [[3, 3], [], [1, 3], [1000, 1000, 1000], [2, 3], [1000, 1000], [3, 3], [1000]])"
proof -
  have a: "\<forall>a w. snd (scribbler a w) = snd (noop a w)"
    by (simp add: scribbler_def noop_def)
  obtain r where r: "retry CONSTANT (Function failing) 3 1000 start = Inr r"
    by (cases "retry CONSTANT (Function failing) 3 1000 start")
      (simp_all add: retry_def Let_def split: prod.splits)
  note t = observer_writes_stay_in_copy [OF a r]
  have "heap (snd (settle (r\<lparr>r_notifier := scribbler\<rparr>))) =
              [[3, 3], [], [99, 99, 99], [], [99, 99, 99], [], [99, 99, 99], []]"
    "heap (snd (settle (r\<lparr>r_notifier := noop\<rparr>))) =
              [[3, 3], [], [1, 3], [1000, 1000, 1000], [2, 3], [1000, 1000], [3, 3], [1000]]"
    using r by (auto simp: run_defs numeral_3_eq_3)
  with a r t show ?thesis by simp
qed

text \<open>
  Claim C10. A task that throws is treated as the task that returns a promise rejected
  with the same value: both programs run alike, for the retry engine and for the deadline
  wrapper, and neither call throws synchronously.
\<close>

theorem throw_is_rejection:
  "retry_observed ty (Function (rejecting fn)) n i obs s = retry_observed ty (Function fn) n i obs s
   \<and> \<not> isl (retry ty (Function fn) n i s)
   \<and> deadline_observed (Function (rejecting fn)) ms dobs w = deadline_observed (Function fn) ms dobs w
   \<and> \<not> isl (deadline (Function fn) ms w)"
proof -
  have "\<not> isl (retry ty (Function fn) n i s)"
    by (simp add: retry_def Let_def split: prod.splits)
  moreover have "\<not> isl (deadline (Function fn) ms w)"
    by (simp add: deadline_def split: prod.splits)
  moreover have "deadline (Function (rejecting fn)) ms w = deadline (Function fn) ms w"
    by (simp add: deadline_def case_prod_beta executor_rejecting_full executor_rejecting)
  then have "deadline_observed (Function (rejecting fn)) ms dobs w =
             deadline_observed (Function fn) ms dobs w"
    by (simp add: deadline_observed_def)
  ultimately show ?thesis using retry_rejecting by blast
qed

text \<open>
  Witness for C10: a task that throws is retried by the engine, and its exception is
  the rejection of the deadline's promise.
\<close>

theorem throw_is_rejection_witness:
  "events (retry_observed CONSTANT (Function throwing) 1 1000 (Function noop) start) =
     [Attempt (Rejected (Err 9)), Delay (Some 1000), Notify ([1, 1], [1000]) (Err 9),
      Attempt (Rejected (Err 9))]
   \<and> deadline_observed (Function throwing) 500 (Function noop) () =
       Inr ((0, Rejected (Err 9)), [], ())"
  using throw_is_rejection [of CONSTANT throwing 1 1000 "Function noop" start 500 "Function noop" "()"]
  by (simp add: run_defs rejecting_def deadline_observed_Function handle_deadline_def
      timeout_def delay_def)

end
